theory Spec2Isabelle
  imports Complex_Main
begin

section \<open>Exceptions\<close>

text \<open>The exceptions of Python that the modelled code can raise.\<close>

datatype py_error = ZeroDivisionError | KeyError | TypeError | ValueError | OverflowError

section \<open>Durations of penalties (bot.py: parse\_duration, penalty)\<close>

text \<open>
  \<^verbatim>\<open>parse_duration\<close> lower-cases its argument and collects every match of the pattern
  \<^verbatim>\<open>(\d+)([dhms])\<close> with \<^verbatim>\<open>re.findall\<close>. A match is a maximal run of decimal digits that
  is directly followed by one of the four unit letters; matches do not overlap and are
  reported from left to right. The scanner below carries the digits read so far.
  Strings are ASCII here (a \<^typ>\<open>char\<close> is a byte).
\<close>

definition is_digit :: "char \<Rightarrow> bool" where
  "is_digit c = (c \<in> set ''0123456789'')"

definition is_unit :: "char \<Rightarrow> bool" where
  "is_unit c = (c \<in> set ''dhms'')"

definition lower_char :: "char \<Rightarrow> char" where
  "lower_char c =
     (case map_of (zip ''ABCDEFGHIJKLMNOPQRSTUVWXYZ'' ''abcdefghijklmnopqrstuvwxyz'') c of
        Some l \<Rightarrow> l
      | None \<Rightarrow> c)"

definition lower :: "string \<Rightarrow> string" where
  "lower s = map lower_char s"

fun findall_from :: "string \<Rightarrow> string \<Rightarrow> (string \<times> char) list" where
  "findall_from acc [] = []"
| "findall_from acc (c # cs) =
     (if is_digit c then findall_from (acc @ [c]) cs
      else if acc \<noteq> [] \<and> is_unit c then (acc, c) # findall_from [] cs
      else findall_from [] cs)"

definition findall :: "string \<Rightarrow> (string \<times> char) list" where
  "findall s = findall_from [] s"

text \<open>
  \<^verbatim>\<open>int(amount)\<close> on a string of decimal digits. CPython refuses to convert a string of
  more than 4300 digits (its default limit on integer string conversion) and raises
  \<^verbatim>\<open>ValueError\<close>; leading zeros count.
\<close>

definition int_max_str_digits :: nat where
  "int_max_str_digits = 4300"

definition py_int :: "string \<Rightarrow> py_error + int" where
  "py_int ds =
     (if int_max_str_digits < length ds then Inl ValueError
      else Inr (foldl (\<lambda>n c. 10 * n + (int (of_char c) - 48)) 0 ds))"

text \<open>
  The loop over the matches: every amount is converted, whatever its unit, and the
  \<^verbatim>\<open>if/elif\<close> chain has no branch for \<^verbatim>\<open>s\<close>.
\<close>

fun parse_components :: "int \<Rightarrow> (string \<times> char) list \<Rightarrow> py_error + int" where
  "parse_components total_seconds [] = Inr total_seconds"
| "parse_components total_seconds (au # rest) =
     (case py_int (fst au) of
        Inl e \<Rightarrow> Inl e
      | Inr amount \<Rightarrow>
          parse_components
            (if snd au = CHR ''d'' then total_seconds + amount * 86400
             else if snd au = CHR ''h'' then total_seconds + amount * 3600
             else if snd au = CHR ''m'' then total_seconds + amount * 60
             else total_seconds)
            rest)"

definition parse_duration :: "string \<Rightarrow> py_error + int" where
  "parse_duration duration_str = parse_components 0 (findall (lower duration_str))"

text \<open>
  The \<^verbatim>\<open>/penalty\<close> command: its guards in source order. The platform lookups
  (permissions of the caller, the configured role, the roles of the member) are inputs.
  A penalty that passes every guard appends \<^verbatim>\<open>(now, total_seconds)\<close> to the member's
  list of records; an exception of \<^verbatim>\<open>parse_duration\<close> escapes the command.
\<close>

datatype penalty_rejection =
  InvalidPermissions | BlacklistRoleNotSet | BlacklistRoleNotFound | AlreadyPenalized
  | InvalidDuration

datatype penalty_outcome =
  PenaltyApplied "(int \<times> int) list" | PenaltyRefused penalty_rejection | PenaltyRaised py_error

record penalty_request =
  caller_may_moderate :: bool
  role_id_configured :: bool
  role_exists :: bool
  member_has_role :: bool
  duration :: string

definition penalty :: "penalty_request \<Rightarrow> int \<Rightarrow> (int \<times> int) list \<Rightarrow> penalty_outcome" where
  "penalty req now records =
     (if \<not> caller_may_moderate req then PenaltyRefused InvalidPermissions
      else if \<not> role_id_configured req then PenaltyRefused BlacklistRoleNotSet
      else if \<not> role_exists req then PenaltyRefused BlacklistRoleNotFound
      else if member_has_role req then PenaltyRefused AlreadyPenalized
      else case parse_duration (duration req) of
        Inl e \<Rightarrow> PenaltyRaised e
      | Inr total_seconds \<Rightarrow>
          if total_seconds \<le> 0 then PenaltyRefused InvalidDuration
          else PenaltyApplied (records @ [(now, total_seconds)]))"

section \<open>Team balancing (helper.py: getTeams)\<close>

text \<open>
  Players are the integer ids of the members. A Python dict keeps its insertion order,
  which \<^verbatim>\<open>getTeams\<close> reads through \<^verbatim>\<open>list(eloData.keys())\<close>: a rating dict is a list of
  pairs whose keys are distinct.
\<close>

type_synonym player = int
type_synonym elo_dict = "(player \<times> int) list"

text \<open>\<^verbatim>\<open>itertools.combinations(players, r)\<close>: the r-element subsequences in index order.\<close>

fun combinations :: "'a list \<Rightarrow> nat \<Rightarrow> 'a list list" where
  "combinations xs 0 = [[]]"
| "combinations [] (Suc r) = []"
| "combinations (x # xs) (Suc r) = map ((#) x) (combinations xs r) @ combinations xs (Suc r)"

text \<open>
  Comparison of two tuples of ids as \<^verbatim>\<open>sorted([team1, team2])\<close> does it: lexicographic, a
  proper prefix first. The sort is stable, so the pair is swapped only if the second
  tuple is strictly smaller.
\<close>

fun tuple_less :: "int list \<Rightarrow> int list \<Rightarrow> bool" where
  "tuple_less [] [] = False"
| "tuple_less [] (y # ys) = True"
| "tuple_less (x # xs) [] = False"
| "tuple_less (x # xs) (y # ys) = (x < y \<or> (x = y \<and> tuple_less xs ys))"

definition matchup_key :: "player list \<Rightarrow> player list \<Rightarrow> player list \<times> player list" where
  "matchup_key team1 team2 = (if tuple_less team2 team1 then (team2, team1) else (team1, team2))"

record matchup =
  redTeam :: "player list"
  blueTeam :: "player list"
  eloRedTeam :: elo_dict
  eloBlueTeam :: elo_dict
  eloDifference :: int

text \<open>
  \<^verbatim>\<open>eloData[p]\<close>: the players are the keys of \<^verbatim>\<open>eloData\<close>, so the look-up never misses
  (lemma \<open>subscript_key\<close> below). \<^verbatim>\<open>{p: eloData[p] for p in team}\<close> keeps the order of the team.
\<close>

definition subscript :: "elo_dict \<Rightarrow> player \<Rightarrow> int" where
  "subscript d p = the (map_of d p)"

definition restrict_dict :: "elo_dict \<Rightarrow> player list \<Rightarrow> elo_dict" where
  "restrict_dict eloData team = map (\<lambda>p. (p, subscript eloData p)) team"

definition dict_sum :: "elo_dict \<Rightarrow> int" where
  "dict_sum d = sum_list (map snd d)"

text \<open>\<^verbatim>\<open>diff < smallestDiff\<close>, where \<^verbatim>\<open>smallestDiff\<close> starts as \<^verbatim>\<open>float('inf')\<close> (\<open>None\<close> here).\<close>

definition below :: "int \<Rightarrow> int option \<Rightarrow> bool" where
  "below d smallest = (case smallest of None \<Rightarrow> True | Some s \<Rightarrow> d < s)"

text \<open>
  The loop over \<^verbatim>\<open>allTeamCombos\<close>, with the variables \<^verbatim>\<open>seen\<close>, \<^verbatim>\<open>bestMatchup\<close> and
  \<^verbatim>\<open>smallestDiff\<close> it updates. \<^verbatim>\<open>team2\<close> is \<^verbatim>\<open>tuple(sorted(set(players) - set(team1)))\<close>.
\<close>

fun getTeams_loop ::
  "elo_dict \<Rightarrow> player list \<Rightarrow> player list list \<Rightarrow> (player list \<times> player list) set
   \<Rightarrow> matchup option \<Rightarrow> int option \<Rightarrow> matchup option" where
  "getTeams_loop eloData players [] seen bestMatchup smallestDiff = bestMatchup"
| "getTeams_loop eloData players (team1 # rest) seen bestMatchup smallestDiff =
     (let team2 = sorted_list_of_set (set players - set team1);
          matchupKey = matchup_key team1 team2
      in if matchupKey \<in> seen
         then getTeams_loop eloData players rest seen bestMatchup smallestDiff
         else
           let eloRed = restrict_dict eloData team1;
               eloBlue = restrict_dict eloData team2;
               diff = \<bar>dict_sum eloRed - dict_sum eloBlue\<bar>
           in if below diff smallestDiff
              then getTeams_loop eloData players rest (insert matchupKey seen)
                     (Some \<lparr>redTeam = team1, blueTeam = team2, eloRedTeam = eloRed,
                            eloBlueTeam = eloBlue, eloDifference = diff\<rparr>)
                     (Some diff)
              else getTeams_loop eloData players rest (insert matchupKey seen)
                     bestMatchup smallestDiff)"

definition getTeams :: "elo_dict \<Rightarrow> matchup option" where
  "getTeams eloData =
     (let players = map fst eloData;
          n = length players;
          teamSize = n div 2;
          allTeamCombos = combinations players teamSize
      in getTeams_loop eloData players allTeamCombos {} None None)"

section \<open>Predicted rating changes (helper.py: calculatePreGameElo)\<close>

text \<open>
  The arithmetic of \<^verbatim>\<open>calculatePreGameElo\<close> is Python float arithmetic. Finite results
  are modelled by the real numbers they stand for: \<^verbatim>\<open>/\<close> is division and \<^verbatim>\<open>10 ** x\<close> is
  \<open>10 powr x\<close>; the rounding error of a float operation, a relative \<open>2 powr - 53\<close>, is
  left out. Where CPython leaves the finite floats the model follows it. A real of
  magnitude \<open>2 ^ 1024 - 2 ^ 970\<close> or more has no finite double next to it; below it
  rounding gives at most the largest double.
\<close>

definition float_limit :: real where
  "float_limit = 2 ^ 1024 - 2 ^ 970"

text \<open>
  The conversion of an \<^verbatim>\<open>int\<close> operand to \<^verbatim>\<open>float\<close> in mixed arithmetic raises
  \<^verbatim>\<open>OverflowError\<close> for an integer too large for a float.
\<close>

definition int_to_float :: "int \<Rightarrow> py_error + real" where
  "int_to_float i =
     (if float_limit \<le> \<bar>real_of_int i\<bar> then Inl OverflowError else Inr (real_of_int i))"

text \<open>
  \<^verbatim>\<open>sum(...) / len(...)\<close>, the true division of an \<^verbatim>\<open>int\<close> by an \<^verbatim>\<open>int\<close>: it raises
  \<^verbatim>\<open>ZeroDivisionError\<close> for the divisor 0 and \<^verbatim>\<open>OverflowError\<close> for a quotient too large
  for a float.
\<close>

definition true_divide :: "int \<Rightarrow> nat \<Rightarrow> py_error + real" where
  "true_divide a n =
     (if n = 0 then Inl ZeroDivisionError
      else if float_limit \<le> \<bar>real_of_int a / real n\<bar> then Inl OverflowError
      else Inr (real_of_int a / real n))"

text \<open>
  \<^verbatim>\<open>1 / (1 + 10 ** ((avgOpp - rating) / 400))\<close>. The rating is converted to float for the
  subtraction. A difference beyond the finite floats is an infinity, silently; then
  \<^verbatim>\<open>10 ** inf\<close> is \<^verbatim>\<open>inf\<close> and the score is \<^verbatim>\<open>0.0\<close>, and \<^verbatim>\<open>10 ** -inf\<close> is \<^verbatim>\<open>0.0\<close> and
  the score is \<^verbatim>\<open>1.0\<close>. For a finite exponent \<^verbatim>\<open>10 ** x\<close> raises \<^verbatim>\<open>OverflowError\<close> when
  the power is too large for a float.
\<close>

definition expectedScore :: "real \<Rightarrow> int \<Rightarrow> py_error + real" where
  "expectedScore avgOpp rating =
     (case int_to_float rating of
        Inl e \<Rightarrow> Inl e
      | Inr r \<Rightarrow>
          if float_limit \<le> avgOpp - r then Inr 0
          else if avgOpp - r \<le> - float_limit then Inr 1
          else if float_limit \<le> 10 powr ((avgOpp - r) / 400) then Inl OverflowError
          else Inr (1 / (1 + 10 powr ((avgOpp - r) / 400))))"

text \<open>
  The built-in \<^verbatim>\<open>round\<close> with one argument returns an integer and rounds a half to the
  even neighbour.
\<close>

definition py_round :: "real \<Rightarrow> int" where
  "py_round x =
     (let f = \<lfloor>x\<rfloor>; d = x - of_int f in
      if d < 1 / 2 then f
      else if d > 1 / 2 then f + 1
      else if even f then f else f + 1)"

record adjustment =
  won :: int
  loss :: int

text \<open>
  One of the two loops of \<^verbatim>\<open>calculatePreGameElo\<close>: for each player of a side, in order,
  the expected score against the average of the other side and the two rounded changes,
  stored under the player. \<^verbatim>\<open>eloTeam[player]\<close> raises for a player without a rating, and
  the product \<^verbatim>\<open>perPlayerK * (...)\<close> converts \<^verbatim>\<open>perPlayerK\<close> to float.
\<close>

fun adjust_side ::
  "int \<Rightarrow> real \<Rightarrow> elo_dict \<Rightarrow> player list \<Rightarrow> (player \<rightharpoonup> adjustment)
   \<Rightarrow> py_error + (player \<rightharpoonup> adjustment)" where
  "adjust_side perPlayerK avgOpp eloTeam [] adjustments = Inr adjustments"
| "adjust_side perPlayerK avgOpp eloTeam (player # rest) adjustments =
     (case map_of eloTeam player of
        None \<Rightarrow> Inl KeyError
      | Some rating \<Rightarrow>
          (case expectedScore avgOpp rating of
             Inl e \<Rightarrow> Inl e
           | Inr score \<Rightarrow>
               (case int_to_float perPlayerK of
                  Inl e \<Rightarrow> Inl e
                | Inr k \<Rightarrow>
                    adjust_side perPlayerK avgOpp eloTeam rest
                      (adjustments(player \<mapsto>
                         \<lparr>won = py_round (k * (1 - score)),
                          loss = py_round (k * (0 - score))\<rparr>)))))"

text \<open>The returned dict \<^verbatim>\<open>{"redTeam": redAdjustments, "blueTeam": blueAdjustments}\<close>.\<close>

record pre_game_elo =
  redAdjustments :: "player \<rightharpoonup> adjustment"
  blueAdjustments :: "player \<rightharpoonup> adjustment"

definition calculatePreGameElo :: "matchup \<Rightarrow> int \<Rightarrow> py_error + pre_game_elo" where
  "calculatePreGameElo matchup perPlayerK =
     (case true_divide (dict_sum (eloBlueTeam matchup)) (length (blueTeam matchup)) of
        Inl e \<Rightarrow> Inl e
      | Inr avgBlueElo \<Rightarrow>
          (case true_divide (dict_sum (eloRedTeam matchup)) (length (redTeam matchup)) of
             Inl e \<Rightarrow> Inl e
           | Inr avgRedElo \<Rightarrow>
               (case adjust_side perPlayerK avgBlueElo (eloRedTeam matchup) (redTeam matchup)
                       Map.empty of
                  Inl e \<Rightarrow> Inl e
                | Inr redAdj \<Rightarrow>
                    (case adjust_side perPlayerK avgRedElo (eloBlueTeam matchup)
                            (blueTeam matchup) Map.empty of
                       Inl e \<Rightarrow> Inl e
                     | Inr blueAdj \<Rightarrow>
                         Inr \<lparr>redAdjustments = redAdj, blueAdjustments = blueAdj\<rparr>))))"

section \<open>The rating ledger (bot.py: updateElo)\<close>

text \<open>
  \<^verbatim>\<open>guildStats[guildId]\<close> maps a member id to a dict of statistics. All members of a match
  belong to one guild, so the model carries the ledger of that guild. A record created by
  \<^verbatim>\<open>updateElo\<close> has the four keys below.
\<close>

datatype stat_key = Elo | Wins | Played | Hosted

type_synonym member_stats = "stat_key \<rightharpoonup> int"
type_synonym guild_stats = "player \<rightharpoonup> member_stats"

definition default_stats :: member_stats where
  "default_stats = [Elo \<mapsto> 100, Wins \<mapsto> 0, Played \<mapsto> 0, Hosted \<mapsto> 0]"

text \<open>
  The body of \<^verbatim>\<open>for key, value in stats.items()\<close>: with \<^verbatim>\<open>update\<close> a key that is present
  is incremented, anything else is set.
\<close>

definition apply_stat :: "bool \<Rightarrow> member_stats \<Rightarrow> stat_key \<times> int \<Rightarrow> member_stats" where
  "apply_stat update record kv =
     (case record (fst kv) of
        Some old \<Rightarrow> if update then record(fst kv \<mapsto> old + snd kv)
                    else record(fst kv \<mapsto> snd kv)
      | None \<Rightarrow> record(fst kv \<mapsto> snd kv))"

text \<open>
  \<^verbatim>\<open>updateElo\<close> without the nickname, which is an effect on the platform whose failures
  are caught.
\<close>

definition updateElo ::
  "guild_stats \<Rightarrow> player \<Rightarrow> (stat_key \<times> int) list \<Rightarrow> bool \<Rightarrow> guild_stats" where
  "updateElo gs memberId stats update =
     (let record = (case gs memberId of None \<Rightarrow> default_stats | Some r \<Rightarrow> r)
      in gs(memberId \<mapsto> foldl (apply_stat update) record stats))"

text \<open>\<^verbatim>\<open>guildStats.get(guildId, {}).get(str(m.id), {}).get("elo", 100)\<close>\<close>

definition live_rating :: "guild_stats \<Rightarrow> player \<Rightarrow> int" where
  "live_rating gs p =
     (case gs p of
        None \<Rightarrow> 100
      | Some record \<Rightarrow> (case record Elo of None \<Rightarrow> 100 | Some e \<Rightarrow> e))"

section \<open>The registry of matches (bot.py)\<close>

text \<open>
  An entry of \<^verbatim>\<open>matches\<close>. The voice channels, the mention strings, the queue channel and
  the link play no part in the ratings and are left out. \<^verbatim>\<open>redTeam\<close> and \<^verbatim>\<open>blueTeam\<close> are
  Python lists that \<^verbatim>\<open>ReplacePlayerView.replace\<close> mutates in place and can make one and
  the same object; \<open>teamsShared\<close> records that the two keys hold the same list. The winner
  is stored as 0 (red) or 1 (blue) under \<^verbatim>\<open>"who won"\<close>, \<^verbatim>\<open>None\<close> while the match is running.
\<close>

type_synonym match_id = string

record match =
  preGameEloCalc :: pre_game_elo
  matchRedTeam :: "player list"
  matchBlueTeam :: "player list"
  teamsShared :: bool
  who_won :: "int option"
  host :: player

record state =
  matches :: "match_id \<rightharpoonup> match"
  guildStats :: guild_stats

text \<open>
  How a handler ends: it completes, it answers with one of the refusal messages and
  returns, it returns early after a failed call to the platform, or an exception of
  Python escapes. The state comes with the outcome, so that what was changed before an
  early end is kept.
\<close>

datatype rejection =
  AlreadyEndedOrCancelled | MatchNotFound | MatchStillActive | MatchHasEnded
  | SelectBoth | MemberNotFound | NotInMatch
  | SetupRequired | MissingHostRole | ChannelNotFound | NotEnoughPlayers | HostNotInQueue

datatype outcome = Done | Rejected rejection | ExternalFailed | Raised py_error

text \<open>
  The loop \<^verbatim>\<open>for m in team: await updateElo(...)\<close> of \<^verbatim>\<open>endMatch\<close> and \<^verbatim>\<open>swapWinners\<close>. The
  argument \<^verbatim>\<open>cMatch["preGameEloCalc"][side][m.id][result]\<close> is evaluated before the call and
  raises for a member without an entry on that side; the members before it are already
  updated.
\<close>

fun settle_side ::
  "(player \<rightharpoonup> adjustment) \<Rightarrow> (adjustment \<Rightarrow> int) \<Rightarrow> int \<Rightarrow> int \<Rightarrow> player list \<Rightarrow> guild_stats
   \<Rightarrow> py_error option \<times> guild_stats" where
  "settle_side adj change playedInc winInc [] gs = (None, gs)"
| "settle_side adj change playedInc winInc (m # rest) gs =
     (case adj m of
        None \<Rightarrow> (Some KeyError, gs)
      | Some a \<Rightarrow>
          settle_side adj change playedInc winInc rest
            (updateElo gs m [(Elo, change a), (Played, playedInc), (Wins, winInc)] True))"

definition endMatch :: "state \<Rightarrow> match_id \<Rightarrow> int \<Rightarrow> outcome \<times> state" where
  "endMatch st matchId winner =
     (case matches st matchId of
        None \<Rightarrow> (Rejected AlreadyEndedOrCancelled, st)
      | Some cMatch \<Rightarrow>
          if who_won cMatch \<noteq> None then (Rejected AlreadyEndedOrCancelled, st)
          else
            let st1 = st\<lparr>matches := (matches st)(matchId \<mapsto> cMatch\<lparr>who_won := Some winner\<rparr>)\<rparr>;
                redRes = (if winner = 0 then won else loss);
                rWin = (if winner = 0 then 1 else 0);
                blueRes = (if winner = 0 then loss else won);
                bWin = (if winner = 0 then 0 else 1)
            in case settle_side (redAdjustments (preGameEloCalc cMatch)) redRes 1 rWin
                      (matchRedTeam cMatch) (guildStats st1) of
                 (Some e, gs1) \<Rightarrow> (Raised e, st1\<lparr>guildStats := gs1\<rparr>)
               | (None, gs1) \<Rightarrow>
                   (case settle_side (blueAdjustments (preGameEloCalc cMatch)) blueRes 1 bWin
                           (matchBlueTeam cMatch) gs1 of
                      (Some e, gs2) \<Rightarrow> (Raised e, st1\<lparr>guildStats := gs2\<rparr>)
                    | (None, gs2) \<Rightarrow> (Done, st1\<lparr>guildStats := gs2\<rparr>)))"

text \<open>
  \<^verbatim>\<open>endMatch\<close> is a coroutine: between its guard and the line that stores the winner it
  awaits \<^verbatim>\<open>interaction.response.defer\<close>, where other handlers can run. The two definitions
  below are the part before that point, true when the handler goes on, and the part after
  it: \<^verbatim>\<open>cMatch = matches[matchId]\<close> raises for an id that is gone, and the rest is the
  rest of \<^verbatim>\<open>endMatch\<close>. A member's record is updated by \<^verbatim>\<open>updateElo\<close> before it awaits.
\<close>

definition endMatch_guard :: "state \<Rightarrow> match_id \<Rightarrow> bool" where
  "endMatch_guard st matchId =
     (case matches st matchId of
        None \<Rightarrow> False
      | Some cMatch \<Rightarrow> who_won cMatch = None)"

definition endMatch_after_defer :: "state \<Rightarrow> match_id \<Rightarrow> int \<Rightarrow> outcome \<times> state" where
  "endMatch_after_defer st matchId winner =
     (case matches st matchId of
        None \<Rightarrow> (Raised KeyError, st)
      | Some cMatch \<Rightarrow>
          let st1 = st\<lparr>matches := (matches st)(matchId \<mapsto> cMatch\<lparr>who_won := Some winner\<rparr>)\<rparr>;
              redRes = (if winner = 0 then won else loss);
              rWin = (if winner = 0 then 1 else 0);
              blueRes = (if winner = 0 then loss else won);
              bWin = (if winner = 0 then 0 else 1)
          in case settle_side (redAdjustments (preGameEloCalc cMatch)) redRes 1 rWin
                    (matchRedTeam cMatch) (guildStats st1) of
               (Some e, gs1) \<Rightarrow> (Raised e, st1\<lparr>guildStats := gs1\<rparr>)
             | (None, gs1) \<Rightarrow>
                 (case settle_side (blueAdjustments (preGameEloCalc cMatch)) blueRes 1 bWin
                         (matchBlueTeam cMatch) gs1 of
                    (Some e, gs2) \<Rightarrow> (Raised e, st1\<lparr>guildStats := gs2\<rparr>)
                  | (None, gs2) \<Rightarrow> (Done, st1\<lparr>guildStats := gs2\<rparr>)))"

definition cancelMatch :: "state \<Rightarrow> match_id \<Rightarrow> outcome \<times> state" where
  "cancelMatch st matchId =
     (case matches st matchId of
        None \<Rightarrow> (Rejected AlreadyEndedOrCancelled, st)
      | Some cMatch \<Rightarrow>
          if who_won cMatch \<noteq> None then (Rejected AlreadyEndedOrCancelled, st)
          else (Done, st\<lparr>matches := (matches st)(matchId := None)\<rparr>))"

definition swapWinners :: "state \<Rightarrow> match_id \<Rightarrow> outcome \<times> state" where
  "swapWinners st matchId =
     (case matches st matchId of
        None \<Rightarrow> (Rejected MatchNotFound, st)
      | Some cMatch \<Rightarrow>
          (case who_won cMatch of
             None \<Rightarrow> (Rejected MatchStillActive, st)
           | Some w \<Rightarrow>
               let newWinner = (if w = 1 then 0 else 1);
                   st1 = st\<lparr>matches :=
                           (matches st)(matchId \<mapsto> cMatch\<lparr>who_won := Some newWinner\<rparr>)\<rparr>;
                   redRes = (if newWinner = 0 then (\<lambda>a. won a * 2) else (\<lambda>a. loss a * 2));
                   rWin = (if newWinner = 0 then 1 else - 1);
                   blueRes = (if newWinner = 0 then (\<lambda>a. loss a * 2) else (\<lambda>a. won a * 2));
                   bWin = (if newWinner = 0 then - 1 else 1)
               in case settle_side (redAdjustments (preGameEloCalc cMatch)) redRes 0 rWin
                         (matchRedTeam cMatch) (guildStats st1) of
                    (Some e, gs1) \<Rightarrow> (Raised e, st1\<lparr>guildStats := gs1\<rparr>)
                  | (None, gs1) \<Rightarrow>
                      (case settle_side (blueAdjustments (preGameEloCalc cMatch)) blueRes 0 bWin
                              (matchBlueTeam cMatch) gs1 of
                         (Some e, gs2) \<Rightarrow> (Raised e, st1\<lparr>guildStats := gs2\<rparr>)
                       | (None, gs2) \<Rightarrow> (Done, st1\<lparr>guildStats := gs2\<rparr>))))"

text \<open>
  \<^verbatim>\<open>{m.id: rating for m in redTeam + blueTeam}\<close>: a key keeps the position of its first
  occurrence.
\<close>

definition first_occurrences :: "player list \<Rightarrow> player list" where
  "first_occurrences ps = rev (remdups (rev ps))"

definition roster_ratings :: "guild_stats \<Rightarrow> player list \<Rightarrow> elo_dict" where
  "roster_ratings gs ps = map (\<lambda>p. (p, live_rating gs p)) (first_occurrences ps)"

text \<open>
  \<^verbatim>\<open>match.get("is won")\<close>: the entries of \<^verbatim>\<open>matches\<close> are created with the key
  \<^verbatim>\<open>"who won"\<close> and no code stores a key \<^verbatim>\<open>"is won"\<close>, so the look-up gives \<^verbatim>\<open>None\<close>.
\<close>

definition get_is_won :: "match \<Rightarrow> int option" where
  "get_is_won m = None"

text \<open>
  \<^verbatim>\<open>ReplacePlayerView.replace\<close>. The two selections, the result of
  \<^verbatim>\<open>guild.get_member\<close> and the success of the calls that move the members are inputs.
  \<^verbatim>\<open>teamList\<close> is the list object of the side of the outgoing member, changed in place
  before the calls to the platform; afterwards the code tests
  \<^verbatim>\<open>memberToReplace in match["redTeam"]\<close> again and stores \<^verbatim>\<open>teamList\<close> under
  \<^verbatim>\<open>"redTeam"\<close> or else under \<^verbatim>\<open>"blueTeam"\<close>. Last it calls \<^verbatim>\<open>getTeams\<close> on the live
  ratings of the roster and stores \<^verbatim>\<open>calculatePreGameElo\<close> of the result.
\<close>

definition replace ::
  "state \<Rightarrow> match_id \<Rightarrow> player option \<Rightarrow> player option \<Rightarrow> (player \<Rightarrow> bool) \<Rightarrow> bool
   \<Rightarrow> outcome \<times> state" where
  "replace st matchId selectedFromA selectedFromB get_member moves_ok =
     (case matches st matchId of
        None \<Rightarrow> (Rejected MatchHasEnded, st)
      | Some match \<Rightarrow>
          if get_is_won match \<noteq> None then (Rejected MatchHasEnded, st)
          else
            (case (selectedFromA, selectedFromB) of
               (Some memberToReplace, Some replacement) \<Rightarrow>
                 if memberToReplace = 0 \<or> replacement = 0 then (Rejected SelectBoth, st)
                 else if \<not> get_member memberToReplace \<or> \<not> get_member replacement
                 then (Rejected MemberNotFound, st)
                 else if memberToReplace \<notin> set (matchRedTeam match)
                       \<and> memberToReplace \<notin> set (matchBlueTeam match)
                 then (Rejected NotInMatch, st)
                 else
                   let onRed = (memberToReplace \<in> set (matchRedTeam match));
                       teamList = remove1 memberToReplace
                                    (if onRed then matchRedTeam match else matchBlueTeam match)
                                  @ [replacement];
                       red1 = (if onRed \<or> teamsShared match then teamList
                               else matchRedTeam match);
                       blue1 = (if \<not> onRed \<or> teamsShared match then teamList
                                else matchBlueTeam match);
                       match1 = match\<lparr>matchRedTeam := red1, matchBlueTeam := blue1\<rparr>
                   in if \<not> moves_ok
                      then (ExternalFailed, st\<lparr>matches := (matches st)(matchId \<mapsto> match1)\<rparr>)
                      else
                        let match2 =
                              (if memberToReplace \<in> set red1
                               then match1\<lparr>matchRedTeam := teamList,
                                           teamsShared := (teamsShared match \<or> \<not> onRed)\<rparr>
                               else match1\<lparr>matchBlueTeam := teamList,
                                           teamsShared := (teamsShared match \<or> onRed)\<rparr>);
                            st2 = st\<lparr>matches := (matches st)(matchId \<mapsto> match2)\<rparr>
                        in (case getTeams (roster_ratings (guildStats st)
                                    (matchRedTeam match2 @ matchBlueTeam match2)) of
                              None \<Rightarrow> (Raised TypeError, st2)
                            | Some teams \<Rightarrow>
                                (case calculatePreGameElo teams 30 of
                                   Inl e \<Rightarrow> (Raised e, st2)
                                 | Inr calc \<Rightarrow>
                                     (Done, st\<lparr>matches := (matches st)
                                        (matchId \<mapsto> match2\<lparr>preGameEloCalc := calc\<rparr>)\<rparr>)))
             | _ \<Rightarrow> (Rejected SelectBoth, st)))"

section \<open>Starting a match (bot.py: startMatch)\<close>

text \<open>
  The sort key \<^verbatim>\<open>voiceData.get(m.id, float('inf'))\<close>: the time of entry into the queue
  channel, infinite when none is recorded. \<^verbatim>\<open>list.sort\<close> is stable; so is insertion from
  the right.
\<close>

definition wait_key_le :: "real option \<Rightarrow> real option \<Rightarrow> bool" where
  "wait_key_le a b =
     (case b of
        None \<Rightarrow> True
      | Some tb \<Rightarrow> (case a of None \<Rightarrow> False | Some ta \<Rightarrow> ta \<le> tb))"

fun insort_wait :: "(player \<rightharpoonup> real) \<Rightarrow> player \<Rightarrow> player list \<Rightarrow> player list" where
  "insort_wait voiceData x [] = [x]"
| "insort_wait voiceData x (y # ys) =
     (if wait_key_le (voiceData x) (voiceData y) then x # y # ys
      else y # insort_wait voiceData x ys)"

definition sort_by_wait :: "(player \<rightharpoonup> real) \<Rightarrow> player list \<Rightarrow> player list" where
  "sort_by_wait voiceData ms = foldr (insort_wait voiceData) ms []"

text \<open>
  The loop \<^verbatim>\<open>for member in queueMembers: if member.bot: queueMembers.pop(member)\<close>.
  \<^verbatim>\<open>list.pop\<close> takes an index; called with a member it raises \<^verbatim>\<open>TypeError\<close>, at the first
  bot of the snapshot, before anything is removed.
\<close>

fun remove_bots :: "(player \<Rightarrow> bool) \<Rightarrow> player list \<Rightarrow> py_error option" where
  "remove_bots is_bot [] = None"
| "remove_bots is_bot (member # rest) =
     (if is_bot member then Some TypeError else remove_bots is_bot rest)"

text \<open>
  The lines of \<^verbatim>\<open>startMatch\<close> from the snapshot of the queue to the truncation to
  \<^verbatim>\<open>matchType * 2\<close> members: the selection of the players.
\<close>

definition select_players ::
  "(player \<Rightarrow> bool) \<Rightarrow> (player \<rightharpoonup> real) \<Rightarrow> player list \<Rightarrow> player \<Rightarrow> nat
   \<Rightarrow> outcome + player list" where
  "select_players is_bot voiceData queueMembers user matchType =
     (case remove_bots is_bot queueMembers of
        Some e \<Rightarrow> Inl (Raised e)
      | None \<Rightarrow>
          if length queueMembers < matchType * 2 then Inl (Rejected NotEnoughPlayers)
          else if user \<notin> set queueMembers then Inl (Rejected HostNotInQueue)
          else Inr (take (matchType * 2)
                      (user # remove1 user (sort_by_wait voiceData queueMembers))))"

text \<open>
  \<^verbatim>\<open>startMatch\<close>: the checks of the setup, of the host role and of the channels are
  inputs, and so is the fresh id chosen by \<^verbatim>\<open>generateShortId\<close>. The ratings are read
  before the host's \<^verbatim>\<open>hosted\<close> count is incremented; the lists of the two sides follow
  the order of the selection.
\<close>

definition startMatch ::
  "state \<Rightarrow> bool \<Rightarrow> bool \<Rightarrow> bool \<Rightarrow> (player \<Rightarrow> bool) \<Rightarrow> (player \<rightharpoonup> real) \<Rightarrow> player list
   \<Rightarrow> player \<Rightarrow> nat \<Rightarrow> match_id \<Rightarrow> outcome \<times> state" where
  "startMatch st setup_ok canHost channels_ok is_bot voiceData queueSnapshot user matchType
       matchId =
     (if \<not> setup_ok then (Rejected SetupRequired, st)
      else if \<not> canHost then (Rejected MissingHostRole, st)
      else if \<not> channels_ok then (Rejected ChannelNotFound, st)
      else
        (case select_players is_bot voiceData queueSnapshot user matchType of
           Inl out \<Rightarrow> (out, st)
         | Inr queueMembers \<Rightarrow>
             (case getTeams (roster_ratings (guildStats st) queueMembers) of
                None \<Rightarrow> (Raised TypeError, st)
              | Some teams \<Rightarrow>
                  (case calculatePreGameElo teams 30 of
                     Inl e \<Rightarrow> (Raised e, st)
                   | Inr calc \<Rightarrow>
                       (Done,
                        \<lparr>matches = (matches st)(matchId \<mapsto>
                           \<lparr>preGameEloCalc = calc,
                            matchRedTeam = filter (\<lambda>m. m \<in> set (redTeam teams)) queueMembers,
                            matchBlueTeam = filter (\<lambda>m. m \<in> set (blueTeam teams)) queueMembers,
                            teamsShared = False,
                            who_won = None,
                            host = user\<rparr>),
                         guildStats = updateElo (guildStats st) user [(Hosted, 1)] True\<rparr>)))))"

section \<open>Notions used to state the properties of parse\_duration\<close>

text \<open>The number that a string of decimal digits denotes, digit by digit.\<close>

definition digit_value :: "char \<Rightarrow> int" where
  "digit_value c = int (of_char c) - 48"

definition decimal :: "string \<Rightarrow> int" where
  "decimal ds = (\<Sum>i < length ds. digit_value (ds ! i) * 10 ^ (length ds - Suc i))"

section \<open>Notions used to state the properties of getTeams\<close>

text \<open>
  The second side of a candidate, the rating sum of a side, the difference of a candidate
  and the record the loop stores for it; the difference of a deduplication key; and the
  loop invariant: the best candidate so far is the first one of least difference among
  the candidates already visited, and no key seen has a smaller difference.
\<close>

definition complement_team :: "player list \<Rightarrow> player list \<Rightarrow> player list" where
  "complement_team players team1 = sorted_list_of_set (set players - set team1)"

definition team_sum :: "elo_dict \<Rightarrow> player list \<Rightarrow> int" where
  "team_sum eloData team = dict_sum (restrict_dict eloData team)"

definition split_diff :: "elo_dict \<Rightarrow> player list \<Rightarrow> player list \<Rightarrow> int" where
  "split_diff eloData players team1 =
     \<bar>team_sum eloData team1 - team_sum eloData (complement_team players team1)\<bar>"

definition candidate :: "elo_dict \<Rightarrow> player list \<Rightarrow> player list \<Rightarrow> matchup" where
  "candidate eloData players team1 =
     \<lparr>redTeam = team1, blueTeam = complement_team players team1,
      eloRedTeam = restrict_dict eloData team1,
      eloBlueTeam = restrict_dict eloData (complement_team players team1),
      eloDifference = split_diff eloData players team1\<rparr>"

definition key_diff :: "elo_dict \<Rightarrow> player list \<times> player list \<Rightarrow> int" where
  "key_diff eloData k = \<bar>team_sum eloData (fst k) - team_sum eloData (snd k)\<bar>"

definition first_min :: "elo_dict \<Rightarrow> player list \<Rightarrow> player list list \<Rightarrow> nat \<Rightarrow> bool" where
  "first_min eloData players ps i \<longleftrightarrow>
     i < length ps
     \<and> (\<forall>j < length ps. split_diff eloData players (ps ! i) \<le> split_diff eloData players (ps ! j))
     \<and> (\<forall>j < i. split_diff eloData players (ps ! i) < split_diff eloData players (ps ! j))"

definition loop_inv ::
  "elo_dict \<Rightarrow> player list \<Rightarrow> player list list \<Rightarrow> (player list \<times> player list) set
   \<Rightarrow> matchup option \<Rightarrow> int option \<Rightarrow> bool" where
  "loop_inv eloData players ps seen best sm \<longleftrightarrow>
     (\<forall>k \<in> seen. \<exists>d. sm = Some d \<and> d \<le> key_diff eloData k)
     \<and> ((ps = [] \<and> best = None \<and> sm = None)
        \<or> (\<exists>i. first_min eloData players ps i
              \<and> best = Some (candidate eloData players (ps ! i))
              \<and> sm = Some (split_diff eloData players (ps ! i))))"

section \<open>Notions used to state the properties of calculatePreGameElo\<close>

text \<open>
  The expected score of the specification, the mean of the ratings of a side, and two
  ways to round to an integer: a half away from zero, as the specification asks, and a
  half to the even neighbour.
\<close>

definition expected_score :: "real \<Rightarrow> int \<Rightarrow> real" where
  "expected_score avgOpp rating = 1 / (1 + 10 powr ((avgOpp - real_of_int rating) / 400))"

definition mean_rating :: "elo_dict \<Rightarrow> real" where
  "mean_rating d = real_of_int (sum_list (map snd d)) / real (length d)"

definition round_half_away :: "real \<Rightarrow> int" where
  "round_half_away x = (if 0 \<le> x then \<lfloor>x + 1 / 2\<rfloor> else - \<lfloor>- x + 1 / 2\<rfloor>)"

definition round_half_even :: "real \<Rightarrow> int" where
  "round_half_even x =
     (let n = \<lfloor>x + 1 / 2\<rfloor> in if of_int n = x + 1 / 2 \<and> odd n then n - 1 else n)"

definition predicted :: "real \<Rightarrow> int \<Rightarrow> adjustment" where
  "predicted avgOpp rating =
     \<lparr>won = round_half_away (30 * (1 - expected_score avgOpp rating)),
      loss = round_half_away (30 * (0 - expected_score avgOpp rating))\<rparr>"

text \<open>The pair of changes as the code rounds them, for any K.\<close>

definition py_predicted :: "int \<Rightarrow> real \<Rightarrow> int \<Rightarrow> adjustment" where
  "py_predicted K avgOpp rating =
     \<lparr>won = py_round (real_of_int K * (1 - expected_score avgOpp rating)),
      loss = py_round (real_of_int K * (0 - expected_score avgOpp rating))\<rparr>"

text \<open>The ratings that a matchup carries, for both sides.\<close>

definition ratings_of :: "matchup \<Rightarrow> int set" where
  "ratings_of m = snd ` (set (eloRedTeam m) \<union> set (eloBlueTeam m))"

section \<open>Notions used to state the properties of the lifecycle\<close>

text \<open>
  Reading a statistic as the bot does, \<^verbatim>\<open>.get(key, default)\<close> with the rating 100 and
  the counts 0 for a member or a key that is absent; and the ledgers every record of
  which has the rating and the two counts that a resolution changes, as the records
  created by \<^verbatim>\<open>updateElo\<close> have.
\<close>

definition stat_default :: "stat_key \<Rightarrow> int" where
  "stat_default k = (if k = Elo then 100 else 0)"

definition stat :: "guild_stats \<Rightarrow> player \<Rightarrow> stat_key \<Rightarrow> int" where
  "stat gs p k =
     (case gs p of
        None \<Rightarrow> stat_default k
      | Some record \<Rightarrow> (case record k of None \<Rightarrow> stat_default k | Some v \<Rightarrow> v))"

definition ledger_complete :: "guild_stats \<Rightarrow> bool" where
  "ledger_complete gs \<longleftrightarrow>
     (\<forall>p record. gs p = Some record \<longrightarrow>
        record Elo \<noteq> None \<and> record Wins \<noteq> None \<and> record Played \<noteq> None)"

text \<open>
  The scenario of the specification: the members 1, 2, 3 and 4 with the ratings 120, 100,
  100 and 80, split into 1 and 4 against 2 and 3, with the changes that
  \<^verbatim>\<open>calculatePreGameElo\<close> predicts for them (both sides average 100). The members 2 and 3
  have no record yet.
\<close>

definition scenario_match :: match where
  "scenario_match =
     \<lparr>preGameEloCalc =
        \<lparr>redAdjustments = [1 \<mapsto> \<lparr>won = 14, loss = - 16\<rparr>, 4 \<mapsto> \<lparr>won = 16, loss = - 14\<rparr>],
         blueAdjustments = [2 \<mapsto> \<lparr>won = 15, loss = - 15\<rparr>, 3 \<mapsto> \<lparr>won = 15, loss = - 15\<rparr>]\<rparr>,
      matchRedTeam = [1, 4], matchBlueTeam = [2, 3], teamsShared = False,
      who_won = None, host = 1\<rparr>"

definition scenario :: state where
  "scenario =
     \<lparr>matches = [''aB3xYz'' \<mapsto> scenario_match],
      guildStats = [1 \<mapsto> [Elo \<mapsto> 120, Wins \<mapsto> 0, Played \<mapsto> 0, Hosted \<mapsto> 1],
                    4 \<mapsto> [Elo \<mapsto> 80, Wins \<mapsto> 0, Played \<mapsto> 0, Hosted \<mapsto> 0]]\<rparr>"

text \<open>
  A second match, as \<^verbatim>\<open>startMatch\<close> creates it for the queue 1, 2, 3, 4 with the ratings
  120, 150, 100 and 170: the first candidate, 1 and 2 against 3 and 4, has difference 0.
  Member 5, with rating 80, waits in the queue. The second state is the first after red
  has been confirmed as the winner.
\<close>

definition roster_match :: match where
  "roster_match =
     \<lparr>preGameEloCalc =
        \<lparr>redAdjustments = [1 \<mapsto> \<lparr>won = 16, loss = - 14\<rparr>, 2 \<mapsto> \<lparr>won = 14, loss = - 16\<rparr>],
         blueAdjustments = [3 \<mapsto> \<lparr>won = 17, loss = - 13\<rparr>, 4 \<mapsto> \<lparr>won = 13, loss = - 17\<rparr>]\<rparr>,
      matchRedTeam = [1, 2], matchBlueTeam = [3, 4], teamsShared = False,
      who_won = None, host = 1\<rparr>"

definition roster_ledger :: guild_stats where
  "roster_ledger =
     [1 \<mapsto> [Elo \<mapsto> 120, Wins \<mapsto> 0, Played \<mapsto> 0, Hosted \<mapsto> 1],
      2 \<mapsto> [Elo \<mapsto> 150, Wins \<mapsto> 0, Played \<mapsto> 0, Hosted \<mapsto> 0],
      3 \<mapsto> [Elo \<mapsto> 100, Wins \<mapsto> 0, Played \<mapsto> 0, Hosted \<mapsto> 0],
      4 \<mapsto> [Elo \<mapsto> 170, Wins \<mapsto> 0, Played \<mapsto> 0, Hosted \<mapsto> 0],
      5 \<mapsto> [Elo \<mapsto> 80, Wins \<mapsto> 0, Played \<mapsto> 0, Hosted \<mapsto> 0]]"

definition roster_scenario :: state where
  "roster_scenario = \<lparr>matches = [''Qw7eRt'' \<mapsto> roster_match], guildStats = roster_ledger\<rparr>"

definition resolved_scenario :: state where
  "resolved_scenario =
     \<lparr>matches = [''Qw7eRt'' \<mapsto> roster_match\<lparr>who_won := Some 0\<rparr>],
      guildStats = roster_ledger\<rparr>"


text \<open>
  The second match after member 4 has been replaced by member 5, and the state in which
  the confirmation of red as the winner leaves it.
\<close>

definition replaced_scenario :: state where
  "replaced_scenario
     = snd (replace roster_scenario ''Qw7eRt'' (Some 4) (Some 5) (\<lambda>m. True) True)"

definition half_resolved_scenario :: state where
  "half_resolved_scenario = snd (endMatch replaced_scenario ''Qw7eRt'' 0)"

section \<open>Properties of parse\_duration\<close>

lemma decimal_Cons:
  "decimal (c # ds) = digit_value c * 10 ^ length ds + decimal ds"
proof -
  have "decimal (c # ds)
      = (\<Sum>i < Suc (length ds). digit_value ((c # ds) ! i) * 10 ^ (length ds - i))"
    by (simp add: decimal_def)
  also have "\<dots> = digit_value c * 10 ^ length ds
      + (\<Sum>i < length ds. digit_value (ds ! i) * 10 ^ (length ds - Suc i))"
    by (subst sum.lessThan_Suc_shift) simp
  finally show ?thesis by (simp add: decimal_def)
qed

lemma foldl_decimal:
  "foldl (\<lambda>n c. 10 * n + (int (of_char c) - 48)) a ds = a * 10 ^ length ds + decimal ds"
proof (induction ds arbitrary: a)
  case Nil
  then show ?case by (simp add: decimal_def)
next
  case (Cons c ds)
  let ?f = "\<lambda>n c. 10 * n + (int (of_char c) - 48)"
  have "foldl ?f a (c # ds) = foldl ?f (10 * a + (int (of_char c) - 48)) ds" by simp
  also have "\<dots> = (10 * a + (int (of_char c) - 48)) * 10 ^ length ds + decimal ds"
    by (rule Cons.IH)
  also have "\<dots> = a * 10 ^ length (c # ds) + decimal (c # ds)"
    by (simp add: decimal_Cons digit_value_def algebra_simps)
  finally show ?case .
qed

lemma py_int_decimal:
  "py_int ds = (if length ds \<le> 4300 then Inr (decimal ds) else Inl ValueError)"
  by (simp add: py_int_def int_max_str_digits_def foldl_decimal)

lemma parse_components_sum:
  "parse_components t ms =
     (if \<forall>au \<in> set ms. length (fst au) \<le> 4300
      then Inr (t + (\<Sum>au\<leftarrow>ms. decimal (fst au) *
              (if snd au = CHR ''d'' then 86400 else if snd au = CHR ''h'' then 3600
               else if snd au = CHR ''m'' then 60 else 0)))
      else Inl ValueError)"
proof (induction ms arbitrary: t)
  case Nil
  then show ?case by simp
next
  case (Cons au ms)
  show ?case
  proof (cases "length (fst au) \<le> 4300")
    case True
    then show ?thesis by (simp add: py_int_decimal Cons.IH)
  next
    case False
    then show ?thesis by (simp add: py_int_decimal)
  qed
qed

lemma sum_list_all_zero:
  "(\<And>x. x \<in> set xs \<Longrightarrow> f x = (0::int)) \<Longrightarrow> (\<Sum>x\<leftarrow>xs. f x) = 0"
  by (induction xs) simp_all

lemma seconds_only_zero:
  assumes "\<forall>au \<in> set (findall (lower s)). length (fst au) \<le> 4300 \<and> snd au = CHR ''s''"
  shows "parse_duration s = Inr 0"
proof -
  have "(\<Sum>au\<leftarrow>findall (lower s). decimal (fst au) *
              (if snd au = CHR ''d'' then 86400 else if snd au = CHR ''h'' then 3600
               else if snd au = CHR ''m'' then 60 else 0)) = 0"
    by (rule sum_list_all_zero) (use assms in auto)
  with assms show ?thesis
    by (simp add: parse_duration_def parse_components_sum)
qed

lemmas scan_simps = findall_def lower_def lower_char_def is_digit_def is_unit_def

lemma parse_examples:
  "parse_duration ''1d'' = Inr 86400" "parse_duration ''2H'' = Inr 7200"
  "parse_duration ''30m'' = Inr 1800" "parse_duration ''1d 2h 30m 45s'' = Inr 95400"
  by (simp_all add: parse_duration_def scan_simps py_int_def int_max_str_digits_def)

lemma findall_from_digits:
  "is_digit c \<Longrightarrow> findall_from acc (replicate n c @ rest) = findall_from (acc @ replicate n c) rest"
proof (induction n arbitrary: acc)
  case 0
  then show ?case by simp
next
  case (Suc n)
  then show ?case by (simp add: replicate_app_Cons_same)
qed

text \<open>
  Claim C10 says that every duration string whose components all carry the unit s
  parses to 0, so that the penalty is refused as an invalid duration. Every amount is
  converted with \<^verbatim>\<open>int\<close>, also one whose unit adds nothing, and the conversion of
  more than 4300 digits raises \<^verbatim>\<open>ValueError\<close>: for 4301 digits followed by s, the only
  component has the unit s, \<^verbatim>\<open>parse_duration\<close> raises, and the exception escapes
  \<^verbatim>\<open>/penalty\<close>.
\<close>

theorem parse_duration_seconds_counterexample:
  "findall (lower (replicate 4301 (CHR ''1'') @ ''s''))
     = [(replicate 4301 (CHR ''1''), CHR ''s'')]
   \<and> parse_duration (replicate 4301 (CHR ''1'') @ ''s'') = Inl ValueError
   \<and> penalty \<lparr>caller_may_moderate = True, role_id_configured = True, role_exists = True,
        member_has_role = False, duration = replicate 4301 (CHR ''1'') @ ''s''\<rparr> 1000 []
       = PenaltyRaised ValueError"
proof -
  have low: "lower (replicate 4301 (CHR ''1'') @ ''s'') = replicate 4301 (CHR ''1'') @ ''s''"
    by (simp add: lower_def lower_char_def)
  have dig: "is_digit (CHR ''1'')" by (simp add: is_digit_def)
  have scan: "findall (replicate 4301 (CHR ''1'') @ ''s'')
      = [(replicate 4301 (CHR ''1''), CHR ''s'')]"
    unfolding findall_def findall_from_digits [OF dig]
    by (simp add: is_digit_def is_unit_def)
  have run: "parse_duration (replicate 4301 (CHR ''1'') @ ''s'') = Inl ValueError"
    by (simp add: parse_duration_def low scan py_int_def int_max_str_digits_def)
  show ?thesis
    using scan run by (simp add: low penalty_def)
qed

text \<open>
  Claim C10 as amended. \<^verbatim>\<open>parse_duration\<close> raises \<^verbatim>\<open>ValueError\<close> if a matched amount
  has more than 4300 digits; otherwise it returns the sum, over the matches of the
  pattern in the lower-cased string, of the amount times 86400 for d, 3600 for h, 60 for m
  and 0 for s: the seconds unit is matched and adds nothing. So a string all of whose
  matched components carry the unit s and have at most 4300 digits parses to 0, and a
  penalty that reaches the duration guard with such a string is refused as an invalid
  duration. For example \<^verbatim>\<open>1d\<close> gives 86400, \<^verbatim>\<open>2H\<close> 7200, \<^verbatim>\<open>30m\<close> 1800 and
  \<^verbatim>\<open>1d 2h 30m 45s\<close> 95400.
\<close>

theorem parse_duration_units:
  "parse_duration s =
     (if \<forall>au \<in> set (findall (lower s)). length (fst au) \<le> 4300
      then Inr (\<Sum>au\<leftarrow>findall (lower s). decimal (fst au) *
              (if snd au = CHR ''d'' then 86400 else if snd au = CHR ''h'' then 3600
               else if snd au = CHR ''m'' then 60 else 0))
      else Inl ValueError)
   \<and> ((\<forall>au \<in> set (findall (lower s)). length (fst au) \<le> 4300 \<and> snd au = CHR ''s'') \<longrightarrow>
        parse_duration s = Inr 0
        \<and> (\<forall>req now records. duration req = s \<longrightarrow>
              caller_may_moderate req \<longrightarrow> role_id_configured req \<longrightarrow> role_exists req \<longrightarrow>
              \<not> member_has_role req \<longrightarrow> penalty req now records = PenaltyRefused InvalidDuration))
   \<and> parse_duration ''1d'' = Inr 86400 \<and> parse_duration ''2H'' = Inr 7200
   \<and> parse_duration ''30m'' = Inr 1800 \<and> parse_duration ''1d 2h 30m 45s'' = Inr 95400"
proof -
  have c1: "parse_duration s =
     (if \<forall>au \<in> set (findall (lower s)). length (fst au) \<le> 4300
      then Inr (\<Sum>au\<leftarrow>findall (lower s). decimal (fst au) *
              (if snd au = CHR ''d'' then 86400 else if snd au = CHR ''h'' then 3600
               else if snd au = CHR ''m'' then 60 else 0))
      else Inl ValueError)"
    by (simp add: parse_duration_def parse_components_sum)
  have pen: "penalty req now records = PenaltyRefused InvalidDuration"
    if "parse_duration s = Inr 0" "duration req = s" "caller_may_moderate req"
       "role_id_configured req" "role_exists req" "\<not> member_has_role req"
    for req now records
    using that by (simp add: penalty_def)
  have c2: "(\<forall>au \<in> set (findall (lower s)). length (fst au) \<le> 4300 \<and> snd au = CHR ''s'') \<longrightarrow>
        parse_duration s = Inr 0
        \<and> (\<forall>req now records. duration req = s \<longrightarrow>
              caller_may_moderate req \<longrightarrow> role_id_configured req \<longrightarrow> role_exists req \<longrightarrow>
              \<not> member_has_role req \<longrightarrow> penalty req now records = PenaltyRefused InvalidDuration)"
    using seconds_only_zero [of s] pen by blast
  show ?thesis
    by (intro conjI) (rule c1 c2 parse_examples)+
qed

theorem parse_duration_units_witness:
  "findall (lower ''45S 10s'') = [(''45'', CHR ''s''), (''10'', CHR ''s'')]
   \<and> parse_duration ''45S 10s'' = Inr 0
   \<and> penalty \<lparr>caller_may_moderate = True, role_id_configured = True, role_exists = True,
        member_has_role = False, duration = ''45S 10s''\<rparr> 1000 [] = PenaltyRefused InvalidDuration
   \<and> findall (lower ''1d 2h 30m 45s'')
       = [(''1'', CHR ''d''), (''2'', CHR ''h''), (''30'', CHR ''m''), (''45'', CHR ''s'')]
   \<and> decimal ''30'' = 30
   \<and> parse_duration ''1d 2h 30m 45s'' = Inr (1 * 86400 + 2 * 3600 + 30 * 60 + 45 * 0)"
proof -
  have m: "findall (lower ''45S 10s'') = [(''45'', CHR ''s''), (''10'', CHR ''s'')]"
    by (simp add: scan_simps)
  then have h: "\<forall>au \<in> set (findall (lower ''45S 10s'')).
      length (fst au) \<le> 4300 \<and> snd au = CHR ''s''"
    by simp
  note t = parse_duration_units [of "''45S 10s''"]
  from t h have z: "parse_duration ''45S 10s'' = Inr 0" by blast
  from t h have "\<forall>req now records. duration req = ''45S 10s'' \<longrightarrow>
              caller_may_moderate req \<longrightarrow> role_id_configured req \<longrightarrow> role_exists req \<longrightarrow>
              \<not> member_has_role req \<longrightarrow> penalty req now records = PenaltyRefused InvalidDuration"
    by blast
  then have p: "penalty \<lparr>caller_may_moderate = True, role_id_configured = True,
        role_exists = True, member_has_role = False, duration = ''45S 10s''\<rparr> 1000 []
      = PenaltyRefused InvalidDuration"
    by simp
  have m2: "findall (lower ''1d 2h 30m 45s'')
       = [(''1'', CHR ''d''), (''2'', CHR ''h''), (''30'', CHR ''m''), (''45'', CHR ''s'')]"
    by (simp add: scan_simps)
  have d: "decimal ''30'' = 30"
    by (simp add: decimal_def digit_value_def lessThan_Suc)
  from t have "parse_duration ''1d 2h 30m 45s'' = Inr 95400" by blast
  then have e: "parse_duration ''1d 2h 30m 45s'' = Inr (1 * 86400 + 2 * 3600 + 30 * 60 + 45 * 0)"
    by simp
  show ?thesis
    by (intro conjI) (rule m z p m2 d e)+
qed

section \<open>Properties of getTeams\<close>

lemma key_diff_matchup_key:
  "key_diff eloData (matchup_key team1 (complement_team players team1))
     = split_diff eloData players team1"
  by (simp add: key_diff_def matchup_key_def split_diff_def abs_minus_commute)

lemma getTeams_loop_step:
  "getTeams_loop eloData players (team1 # rest) seen best sm =
     (if matchup_key team1 (complement_team players team1) \<in> seen
      then getTeams_loop eloData players rest seen best sm
      else if below (split_diff eloData players team1) sm
      then getTeams_loop eloData players rest
             (insert (matchup_key team1 (complement_team players team1)) seen)
             (Some (candidate eloData players team1)) (Some (split_diff eloData players team1))
      else getTeams_loop eloData players rest
             (insert (matchup_key team1 (complement_team players team1)) seen) best sm)"
  by (simp add: Let_def complement_team_def candidate_def split_diff_def team_sum_def)

lemma first_min_keep:
  assumes "first_min eloData players ps i"
    and "split_diff eloData players (ps ! i) \<le> split_diff eloData players c"
  shows "first_min eloData players (ps @ [c]) i"
  using assms unfolding first_min_def
  by (auto simp: nth_append less_Suc_eq)

lemma first_min_new:
  assumes "\<forall>j < length ps. split_diff eloData players c < split_diff eloData players (ps ! j)"
  shows "first_min eloData players (ps @ [c]) (length ps)"
  using assms unfolding first_min_def
  by (auto simp: nth_append less_Suc_eq)

lemma loop_inv_step_keep:
  assumes inv: "loop_inv eloData players ps seen best sm"
    and sm: "sm = Some s" and le: "s \<le> split_diff eloData players c"
  shows "loop_inv eloData players (ps @ [c])
           (insert (matchup_key c (complement_team players c)) seen) best sm"
    and "loop_inv eloData players (ps @ [c]) seen best sm"
proof -
  from inv sm obtain i where i: "first_min eloData players ps i"
    "best = Some (candidate eloData players (ps ! i))"
    "s = split_diff eloData players (ps ! i)"
    unfolding loop_inv_def by auto
  have fm: "first_min eloData players (ps @ [c]) i"
    using first_min_keep [OF i(1)] le i(3) by simp
  have nth: "(ps @ [c]) ! i = ps ! i"
    using i(1) by (simp add: first_min_def nth_append)
  have seen: "\<forall>k \<in> seen. \<exists>d. sm = Some d \<and> d \<le> key_diff eloData k"
    using inv by (simp add: loop_inv_def)
  show "loop_inv eloData players (ps @ [c]) seen best sm"
    unfolding loop_inv_def using seen fm i(2,3) sm nth by auto
  show "loop_inv eloData players (ps @ [c])
           (insert (matchup_key c (complement_team players c)) seen) best sm"
    unfolding loop_inv_def using seen fm i(2,3) sm nth le
    by (auto simp: key_diff_matchup_key)
qed

lemma loop_inv_step_new:
  assumes inv: "loop_inv eloData players ps seen best sm"
    and b: "below (split_diff eloData players c) sm"
  shows "loop_inv eloData players (ps @ [c])
           (insert (matchup_key c (complement_team players c)) seen)
           (Some (candidate eloData players c)) (Some (split_diff eloData players c))"
proof -
  let ?d = "split_diff eloData players c"
  have less: "\<forall>j < length ps. ?d < split_diff eloData players (ps ! j)"
  proof (cases sm)
    case None
    with inv have "ps = []" by (auto simp: loop_inv_def)
    then show ?thesis by simp
  next
    case (Some s)
    with inv obtain i where i: "first_min eloData players ps i"
      "s = split_diff eloData players (ps ! i)"
      unfolding loop_inv_def by auto
    from b Some have "?d < s" by (simp add: below_def)
    with i show ?thesis unfolding first_min_def by fastforce
  qed
  have seen: "\<forall>k \<in> seen. ?d \<le> key_diff eloData k"
  proof
    fix k assume "k \<in> seen"
    with inv obtain s where "sm = Some s" "s \<le> key_diff eloData k"
      by (auto simp: loop_inv_def)
    with b show "?d \<le> key_diff eloData k" by (simp add: below_def)
  qed
  show ?thesis
    unfolding loop_inv_def
    using first_min_new [OF less] seen
    by (auto simp: key_diff_matchup_key)
qed

lemma getTeams_loop_inv:
  "loop_inv eloData players ps seen best sm \<Longrightarrow>
   \<exists>seen' sm'. loop_inv eloData players (ps @ cs) seen'
                 (getTeams_loop eloData players cs seen best sm) sm'"
proof (induction cs arbitrary: ps seen best sm)
  case Nil
  then show ?case by auto
next
  case (Cons c cs)
  let ?key = "matchup_key c (complement_team players c)"
  let ?d = "split_diff eloData players c"
  show ?case
  proof (cases "?key \<in> seen")
    case True
    with Cons.prems obtain s where s: "sm = Some s" "s \<le> key_diff eloData ?key"
      by (auto simp: loop_inv_def)
    then have "s \<le> ?d" by (simp add: key_diff_matchup_key)
    from Cons.IH [OF loop_inv_step_keep(2) [OF Cons.prems s(1) this]]
    show ?thesis
      using True by (simp add: getTeams_loop_step del: getTeams_loop.simps(2))
  next
    case False
    show ?thesis
    proof (cases "below ?d sm")
      case True
      from Cons.IH [OF loop_inv_step_new [OF Cons.prems True]]
      show ?thesis
        using False True by (simp add: getTeams_loop_step del: getTeams_loop.simps(2))
    next
      case nb: False
      then obtain s where s: "sm = Some s" "s \<le> ?d"
        by (cases sm) (auto simp: below_def)
      from Cons.IH [OF loop_inv_step_keep(1) [OF Cons.prems s]]
      show ?thesis
        using False nb by (simp add: getTeams_loop_step del: getTeams_loop.simps(2))
    qed
  qed
qed

lemma getTeams_first_min:
  assumes "combinations (map fst eloData) (length eloData div 2) \<noteq> []"
  shows "\<exists>i. first_min eloData (map fst eloData)
                (combinations (map fst eloData) (length eloData div 2)) i
            \<and> getTeams eloData = Some (candidate eloData (map fst eloData)
                (combinations (map fst eloData) (length eloData div 2) ! i))"
proof -
  let ?players = "map fst eloData"
  let ?cs = "combinations ?players (length eloData div 2)"
  have "loop_inv eloData ?players [] {} None None"
    by (simp add: loop_inv_def)
  from getTeams_loop_inv [OF this, of ?cs]
  obtain seen' sm' where
    "loop_inv eloData ?players ?cs seen' (getTeams_loop eloData ?players ?cs {} None None) sm'"
    by auto
  with assms show ?thesis
    by (auto simp: loop_inv_def getTeams_def Let_def)
qed

lemma combinations_props:
  "ys \<in> set (combinations xs r) \<Longrightarrow>
     length ys = r \<and> set ys \<subseteq> set xs \<and> (distinct xs \<longrightarrow> distinct ys)"
proof (induction xs r arbitrary: ys rule: combinations.induct)
  case (3 x xs r)
  from "3.prems" consider
    (taken) zs where "ys = x # zs" "zs \<in> set (combinations xs r)"
    | (skipped) "ys \<in> set (combinations xs (Suc r))"
    by auto
  then show ?case
  proof cases
    case taken
    from "3.IH"(1) [OF taken(2)] taken(1) show ?thesis by auto
  next
    case skipped
    from "3.IH"(2) [OF skipped] show ?thesis by auto
  qed
qed auto

lemma combinations_nonempty: "r \<le> length xs \<Longrightarrow> combinations xs r \<noteq> []"
  by (induction xs r rule: combinations.induct) auto

lemma combinations_complete:
  "distinct xs \<Longrightarrow> A \<subseteq> set xs \<Longrightarrow> card A = r \<Longrightarrow>
     \<exists>ys \<in> set (combinations xs r). set ys = A"
proof (induction xs r arbitrary: A rule: combinations.induct)
  case (1 xs)
  then have "finite A" by (meson finite_set finite_subset)
  with 1 show ?case by simp
next
  case (2 r)
  then show ?case by simp
next
  case (3 x xs r)
  have fin: "finite A" using "3.prems"(2) by (meson finite_set finite_subset)
  show ?case
  proof (cases "x \<in> A")
    case True
    then have "card (A - {x}) = r" using "3.prems"(3) fin by simp
    moreover have "A - {x} \<subseteq> set xs" using "3.prems"(2) by auto
    ultimately obtain ys where "ys \<in> set (combinations xs r)" "set ys = A - {x}"
      using "3.IH"(1) "3.prems"(1) by (metis distinct.simps(2))
    then have "x # ys \<in> set (combinations (x # xs) (Suc r))" "set (x # ys) = A"
      using True by auto
    then show ?thesis by blast
  next
    case False
    then have "A \<subseteq> set xs" using "3.prems"(2) by auto
    then obtain ys where "ys \<in> set (combinations xs (Suc r))" "set ys = A"
      using "3.IH"(2) "3.prems"(1,3) by (metis distinct.simps(2))
    then show ?thesis by auto
  qed
qed

lemma team_sum_set:
  "distinct team \<Longrightarrow> team_sum eloData team = (\<Sum>p \<in> set team. subscript eloData p)"
  by (simp add: team_sum_def dict_sum_def restrict_dict_def comp_def sum_list_distinct_conv_sum_set)

lemma complement_team_props:
  "set (complement_team players team1) = set players - set team1"
  "distinct (complement_team players team1)"
  "sorted (complement_team players team1)"
  by (simp_all add: complement_team_def)

lemma length_complement_team:
  assumes "distinct players" "distinct team1" "set team1 \<subseteq> set players"
  shows "length (complement_team players team1) = length players - length team1"
proof -
  have "length (complement_team players team1) = card (set players - set team1)"
    by (simp add: complement_team_def)
  also have "\<dots> = card (set players) - card (set team1)"
    using assms(3) by (simp add: card_Diff_subset)
  finally show ?thesis using assms by (simp add: distinct_card)
qed

lemma split_diff_sets:
  assumes "distinct team1"
  shows "split_diff eloData players team1 =
     \<bar>(\<Sum>p \<in> set team1. subscript eloData p)
        - (\<Sum>p \<in> set players - set team1. subscript eloData p)\<bar>"
  using assms
  by (simp add: split_diff_def team_sum_set complement_team_props)

lemma subscript_key:
  "p \<in> set (map fst eloData) \<Longrightarrow> map_of eloData p = Some (subscript eloData p)"
  by (cases "map_of eloData p") (auto simp: subscript_def map_of_eq_None_iff)

text \<open>
  Claim C1. For a rating dict with an even, positive number of entries, \<^verbatim>\<open>getTeams\<close>
  returns a matchup whose two sides are disjoint, have half of the players each and
  together are exactly the players of the dict; its \<^verbatim>\<open>eloDifference\<close> is the absolute
  difference of the two rating sums, and no split of the players into two sides of equal
  size has a smaller one. The red side is a candidate of
  \<^verbatim>\<open>combinations(players, n // 2)\<close>, and every candidate enumerated before it has a
  strictly larger difference: among the splits of least difference the first one
  enumerated is returned.
\<close>

theorem getTeams_balanced:
  assumes keys: "distinct (map fst eloData)"
    and even: "even (length eloData)" and nonempty: "eloData \<noteq> []"
  shows "\<exists>m i. getTeams eloData = Some m
     \<and> set (redTeam m) \<inter> set (blueTeam m) = {}
     \<and> length (redTeam m) = length eloData div 2
     \<and> length (blueTeam m) = length eloData div 2
     \<and> set (redTeam m) \<union> set (blueTeam m) = fst ` set eloData
     \<and> eloDifference m = \<bar>dict_sum (eloRedTeam m) - dict_sum (eloBlueTeam m)\<bar>
     \<and> eloRedTeam m = map (\<lambda>p. (p, subscript eloData p)) (redTeam m)
     \<and> eloBlueTeam m = map (\<lambda>p. (p, subscript eloData p)) (blueTeam m)
     \<and> (\<forall>A B. A \<union> B = fst ` set eloData \<and> A \<inter> B = {} \<and> card A = card B \<longrightarrow>
            eloDifference m
              \<le> \<bar>(\<Sum>p \<in> A. subscript eloData p) - (\<Sum>p \<in> B. subscript eloData p)\<bar>)
     \<and> i < length (combinations (map fst eloData) (length eloData div 2))
     \<and> redTeam m = combinations (map fst eloData) (length eloData div 2) ! i
     \<and> (\<forall>j < i. eloDifference m
            < split_diff eloData (map fst eloData)
                (combinations (map fst eloData) (length eloData div 2) ! j))"
proof -
  let ?players = "map fst eloData"
  let ?k = "length eloData div 2"
  let ?cs = "combinations ?players ?k"
  have "?cs \<noteq> []" by (rule combinations_nonempty) simp
  from getTeams_first_min [OF this] obtain i where
    fm: "first_min eloData ?players ?cs i"
    and res: "getTeams eloData = Some (candidate eloData ?players (?cs ! i))"
    by blast
  let ?red = "?cs ! i"
  let ?m = "candidate eloData ?players ?red"
  have i: "i < length ?cs" using fm by (simp add: first_min_def)
  then have mem: "?red \<in> set ?cs" by simp
  from combinations_props [OF mem] keys
  have red: "length ?red = ?k" "set ?red \<subseteq> set ?players" "distinct ?red" by auto
  have len_blue: "length (complement_team ?players ?red) = ?k"
    using length_complement_team [OF keys red(3) red(2)] red(1) even by auto
  have cover: "set ?red \<union> set (complement_team ?players ?red) = fst ` set eloData"
    using red(2) by (auto simp: complement_team_props)
  have minimal: "eloDifference ?m
      \<le> \<bar>(\<Sum>p \<in> A. subscript eloData p) - (\<Sum>p \<in> B. subscript eloData p)\<bar>"
    if AB: "A \<union> B = fst ` set eloData" "A \<inter> B = {}" "card A = card B" for A B
  proof -
    have finA: "finite A" and finB: "finite B"
      using AB(1) finite_Un [of A B] by simp_all
    have "card A + card B = card (set ?players)"
      using AB(1,2) card_Un_disjoint [OF finA finB] by simp
    moreover have "card (set ?players) = length eloData"
      using keys distinct_card [of ?players] by simp
    ultimately have "card A = ?k"
      using AB(3) by simp
    moreover have "A \<subseteq> set ?players" using AB(1) by auto
    ultimately obtain ys where ys: "ys \<in> set ?cs" "set ys = A"
      using combinations_complete [OF keys] by blast
    then obtain j where j: "j < length ?cs" "?cs ! j = ys"
      by (auto simp: in_set_conv_nth)
    have dys: "distinct ys" using combinations_props [OF ys(1)] keys by simp
    have B: "B = set ?players - set ys" using AB(1,2) ys(2) by auto
    have "split_diff eloData ?players (?cs ! i) \<le> split_diff eloData ?players ys"
      using fm j by (auto simp: first_min_def)
    then show ?thesis
      by (simp add: candidate_def split_diff_sets [OF dys] ys(2) B)
  qed
  have ties: "\<forall>j < i. eloDifference ?m < split_diff eloData ?players (?cs ! j)"
    using fm by (simp add: first_min_def candidate_def)
  have minimal': "\<forall>A B. A \<union> B = fst ` set eloData \<and> A \<inter> B = {} \<and> card A = card B \<longrightarrow>
            eloDifference ?m
              \<le> \<bar>(\<Sum>p \<in> A. subscript eloData p) - (\<Sum>p \<in> B. subscript eloData p)\<bar>"
    using minimal by simp
  have c1: "set (redTeam ?m) \<inter> set (blueTeam ?m) = {}"
    by (auto simp: candidate_def complement_team_props)
  have c2: "length (redTeam ?m) = ?k" and c3: "length (blueTeam ?m) = ?k"
    using red(1) len_blue by (simp_all add: candidate_def)
  have c4: "set (redTeam ?m) \<union> set (blueTeam ?m) = fst ` set eloData"
    using cover by (simp add: candidate_def)
  have c5: "eloDifference ?m = \<bar>dict_sum (eloRedTeam ?m) - dict_sum (eloBlueTeam ?m)\<bar>"
    by (simp add: candidate_def split_diff_def team_sum_def)
  have c6: "eloRedTeam ?m = map (\<lambda>p. (p, subscript eloData p)) (redTeam ?m)"
    and c7: "eloBlueTeam ?m = map (\<lambda>p. (p, subscript eloData p)) (blueTeam ?m)"
    by (simp_all add: candidate_def restrict_dict_def)
  have c8: "redTeam ?m = ?cs ! i" by (simp add: candidate_def)
  show ?thesis
    by (rule exI [of _ ?m], rule exI [of _ i], intro conjI)
      (rule res c1 c2 c3 c4 c5 c6 c7 minimal' i c8 ties)+
qed

theorem getTeams_balanced_witness:
  "distinct (map fst ([(1, 120), (2, 100), (3, 100), (4, 85)] :: elo_dict))
   \<and> even (length ([(1, 120), (2, 100), (3, 100), (4, 85)] :: elo_dict))
   \<and> ([(1, 120), (2, 100), (3, 100), (4, 85)] :: elo_dict) \<noteq> []
   \<and> getTeams [(1, 120), (2, 100), (3, 100), (4, 85)]
       = Some \<lparr>redTeam = [1, 4], blueTeam = [2, 3], eloRedTeam = [(1, 120), (4, 85)],
               eloBlueTeam = [(2, 100), (3, 100)], eloDifference = 5\<rparr>
   \<and> 5 \<le> \<bar>(\<Sum>p \<in> {1, 2}. subscript [(1, 120), (2, 100), (3, 100), (4, 85)] p)
            - (\<Sum>p \<in> {3, 4}. subscript [(1, 120), (2, 100), (3, 100), (4, 85)] p)\<bar>"
proof -
  let ?d = "[(1, 120), (2, 100), (3, 100), (4, 85)] :: elo_dict"
  have run: "getTeams ?d
       = Some \<lparr>redTeam = [1, 4], blueTeam = [2, 3], eloRedTeam = [(1, 120), (4, 85)],
               eloBlueTeam = [(2, 100), (3, 100)], eloDifference = 5\<rparr>"
    by code_simp
  have h1: "distinct (map fst ?d)" and h2: "even (length ?d)" and h3: "?d \<noteq> []"
    by simp_all
  from getTeams_balanced [OF h1 h2 h3] obtain m i where m: "getTeams ?d = Some m"
    and least: "\<forall>A B. A \<union> B = fst ` set ?d \<and> A \<inter> B = {} \<and> card A = card B \<longrightarrow>
       eloDifference m
         \<le> \<bar>(\<Sum>p \<in> A. subscript ?d p) - (\<Sum>p \<in> B. subscript ?d p)\<bar>"
    by (elim exE conjE)
  from m run have five: "eloDifference m = 5" by auto
  have split: "{1, 2} \<union> {3, 4} = fst ` set ?d \<and> {1, 2 :: int} \<inter> {3, 4} = {}
      \<and> card {1, 2 :: int} = card {3, 4 :: int}"
    by auto
  from least [rule_format, OF split] five
  have other: "5 \<le> \<bar>(\<Sum>p \<in> {1, 2}. subscript ?d p) - (\<Sum>p \<in> {3, 4}. subscript ?d p)\<bar>"
    by simp
  show ?thesis
    by (intro conjI) (rule h1 h2 h3 run other)+
qed

text \<open>
  Claim C6 says that a rating dict with an odd number of entries is refused with an
  error. \<^verbatim>\<open>getTeams\<close> has no such check: \<^verbatim>\<open>teamSize = n // 2\<close> rounds down and the
  search runs as for an even number. On three players it returns a side of one against a
  side of two.
\<close>

theorem getTeams_odd_counterexample:
  "getTeams [(1, 120), (2, 100), (3, 100)]
     = Some \<lparr>redTeam = [1], blueTeam = [2, 3], eloRedTeam = [(1, 120)],
             eloBlueTeam = [(2, 100), (3, 100)], eloDifference = 80\<rparr>"
  by code_simp

text \<open>
  Claim C6 as amended. For a rating dict with an odd number n of entries \<^verbatim>\<open>getTeams\<close>
  does not fail: it returns a matchup whose red side has n div 2 players and whose blue
  side has the other n div 2 + 1, the two sides disjoint and together all the players.
\<close>

theorem getTeams_odd_uneven:
  assumes keys: "distinct (map fst eloData)" and odd: "odd (length eloData)"
  shows "\<exists>m. getTeams eloData = Some m
     \<and> length (redTeam m) = length eloData div 2
     \<and> length (blueTeam m) = length eloData div 2 + 1
     \<and> set (redTeam m) \<inter> set (blueTeam m) = {}
     \<and> set (redTeam m) \<union> set (blueTeam m) = fst ` set eloData"
proof -
  let ?players = "map fst eloData"
  let ?k = "length eloData div 2"
  let ?cs = "combinations ?players ?k"
  have "?cs \<noteq> []" by (rule combinations_nonempty) simp
  from getTeams_first_min [OF this] obtain i where
    fm: "first_min eloData ?players ?cs i"
    and res: "getTeams eloData = Some (candidate eloData ?players (?cs ! i))"
    by blast
  let ?red = "?cs ! i"
  let ?m = "candidate eloData ?players ?red"
  have "?red \<in> set ?cs" using fm by (simp add: first_min_def)
  from combinations_props [OF this] keys
  have red: "length ?red = ?k" "set ?red \<subseteq> set ?players" "distinct ?red" by auto
  have "length (complement_team ?players ?red) = length eloData - ?k"
    using length_complement_team [OF keys red(3) red(2)] red(1) by simp
  also have "\<dots> = ?k + 1" using odd by (auto elim: oddE)
  finally have blue: "length (complement_team ?players ?red) = ?k + 1" .
  have cover: "set ?red \<union> set (complement_team ?players ?red) = fst ` set eloData"
    using red(2) by (auto simp: complement_team_props)
  have c1: "length (redTeam ?m) = ?k" using red(1) by (simp add: candidate_def)
  have c2: "length (blueTeam ?m) = ?k + 1" using blue by (simp add: candidate_def)
  have c3: "set (redTeam ?m) \<inter> set (blueTeam ?m) = {}"
    by (auto simp: candidate_def complement_team_props)
  have c4: "set (redTeam ?m) \<union> set (blueTeam ?m) = fst ` set eloData"
    using cover by (simp add: candidate_def)
  show ?thesis
    by (rule exI [of _ ?m], intro conjI) (rule res c1 c2 c3 c4)+
qed

theorem getTeams_odd_uneven_witness:
  "distinct (map fst ([(1, 120), (2, 100), (3, 100)] :: elo_dict))
   \<and> odd (length ([(1, 120), (2, 100), (3, 100)] :: elo_dict))
   \<and> (\<exists>m. getTeams [(1, 120), (2, 100), (3, 100)] = Some m
         \<and> length (redTeam m) = length ([(1, 120), (2, 100), (3, 100)] :: elo_dict) div 2
         \<and> length (blueTeam m) = length ([(1, 120), (2, 100), (3, 100)] :: elo_dict) div 2 + 1
         \<and> set (redTeam m) \<inter> set (blueTeam m) = {}
         \<and> set (redTeam m) \<union> set (blueTeam m)
             = fst ` set ([(1, 120), (2, 100), (3, 100)] :: elo_dict))"
proof -
  let ?d = "[(1, 120), (2, 100), (3, 100)] :: elo_dict"
  have h1: "distinct (map fst ?d)" and h2: "odd (length ?d)" by simp_all
  show ?thesis
    by (intro conjI) (rule h1 h2 getTeams_odd_uneven [OF h1 h2])+
qed

section \<open>Properties of calculatePreGameElo\<close>

lemma py_round_no_tie:
  assumes "x - of_int \<lfloor>x\<rfloor> \<noteq> 1 / 2"
  shows "py_round x = round_half_away x"
proof -
  let ?f = "\<lfloor>x\<rfloor>"
  let ?d = "x - of_int ?f"
  have d: "0 \<le> ?d" "?d < 1" by linarith+
  show ?thesis
  proof (cases "?d < 1 / 2")
    case True
    then have "py_round x = ?f" by (simp add: py_round_def Let_def)
    moreover have "\<lfloor>x + 1 / 2\<rfloor> = ?f" using True d by linarith
    moreover have "- \<lfloor>- x + 1 / 2\<rfloor> = ?f" using True d by linarith
    ultimately show ?thesis by (simp add: round_half_away_def)
  next
    case False
    with assms have gt: "?d > 1 / 2" by linarith
    then have "py_round x = ?f + 1" by (simp add: py_round_def Let_def)
    moreover have "\<lfloor>x + 1 / 2\<rfloor> = ?f + 1" using gt d by linarith
    moreover have "- \<lfloor>- x + 1 / 2\<rfloor> = ?f + 1" using gt d by linarith
    ultimately show ?thesis by (simp add: round_half_away_def)
  qed
qed

lemma odd_ratio_power_of_ten:
  fixes p q a :: int and N :: nat
  assumes N: "0 < N" and p: "odd p" and q: "odd q"
    and eq: "of_int q * (10 powr (of_int a / of_nat N) :: real) = of_int p"
  shows "a = 0"
proof -
  let ?t = "10 powr (of_int a / of_nat N) :: real"
  have tN: "?t ^ N = 10 powr (of_int a)"
    using N by (simp add: powr_realpow [symmetric] powr_powr)
  have "(of_int q * ?t) ^ N = (of_int p :: real) ^ N" using eq by simp
  then have pw: "of_int (q ^ N) * 10 powr (of_int a) = (of_int (p ^ N) :: real)"
    by (simp add: power_mult_distrib tN)
  have oddp: "odd (p ^ N)" and oddq: "odd (q ^ N)" using p q by simp_all
  show ?thesis
  proof (rule ccontr)
    assume a: "a \<noteq> 0"
    show False
    proof (cases "0 < a")
      case True
      then have "(10::real) powr (of_int a) = of_int (10 ^ nat a)"
        using powr_realpow [of "10::real" "nat a"] by simp
      with pw have "(of_int (q ^ N * 10 ^ nat a) :: real) = of_int (p ^ N)" by simp
      then have "q ^ N * 10 ^ nat a = p ^ N" by (simp only: of_int_eq_iff)
      moreover have "even (q ^ N * (10::int) ^ nat a)" using True by simp
      ultimately show False using oddp by simp
    next
      case False
      with a have neg: "a < 0" by simp
      then have "(10::real) powr (of_int a) = 1 / of_int (10 ^ nat (- a))"
        using powr_realpow [of "10::real" "nat (- a)"] powr_minus_divide [of "10::real" "of_int (- a)"]
        by simp
      with pw have "(of_int (q ^ N) :: real) = of_int (p ^ N) * of_int (10 ^ nat (- a))"
        by (simp add: field_simps)
      then have "(of_int (q ^ N) :: real) = of_int (p ^ N * 10 ^ nat (- a))" by simp
      then have "q ^ N = p ^ N * 10 ^ nat (- a)" by (simp only: of_int_eq_iff)
      moreover have "even (p ^ N * (10::int) ^ nat (- a))" using neg by simp
      ultimately show False using oddq by simp
    qed
  qed
qed

lemma exponent_as_ratio:
  fixes S r :: int and n :: nat
  assumes "0 < n"
  shows "(real_of_int S / real n - real_of_int r) / 400
           = of_int (S - r * int n) / of_nat (400 * n)"
  using assms by (simp add: field_simps)

lemma won_tie_equation:
  fixes t k :: real
  assumes "0 < t" and "30 * (1 - 1 / (1 + t)) - k = 1 / 2"
  shows "(59 - 2 * k) * t = 2 * k + 1"
proof -
  have nz: "1 + t \<noteq> 0" using assms(1) by simp
  have "1 - 1 / (1 + t) = t / (1 + t)" using nz by (simp add: field_simps)
  with assms(2) have "60 * t / (1 + t) = 2 * k + 1" by simp
  then have "60 * t = (2 * k + 1) * (1 + t)" using nz by (simp add: divide_eq_eq)
  then show ?thesis by (simp add: algebra_simps)
qed

lemma loss_tie_equation:
  fixes t k :: real
  assumes "0 < t" and "30 * (0 - 1 / (1 + t)) - k = 1 / 2"
  shows "(2 * k + 1) * t = - (2 * k + 61)"
proof -
  have nz: "1 + t \<noteq> 0" using assms(1) by simp
  from assms(2) have "(- 60) / (1 + t) = 2 * k + 1" by simp
  then have "- 60 = (2 * k + 1) * (1 + t)"
    by (rule iffD1 [OF nonzero_divide_eq_eq [OF nz]])
  then show ?thesis by (simp add: algebra_simps)
qed

lemma won_no_tie:
  fixes S r :: int and n :: nat
  assumes n: "0 < n"
  shows "30 * (1 - expected_score (real_of_int S / real n) r)
           - of_int \<lfloor>30 * (1 - expected_score (real_of_int S / real n) r)\<rfloor> \<noteq> 1 / 2"
proof
  define t :: real where "t = 10 powr (of_int (S - r * int n) / of_nat (400 * n))"
  define m where "m = \<lfloor>30 * (1 - expected_score (real_of_int S / real n) r)\<rfloor>"
  assume "30 * (1 - expected_score (real_of_int S / real n) r)
           - of_int \<lfloor>30 * (1 - expected_score (real_of_int S / real n) r)\<rfloor> = 1 / 2"
  then have tie: "30 * (1 - 1 / (1 + t)) - of_int m = 1 / 2"
    unfolding m_def t_def expected_score_def exponent_as_ratio [OF n] .
  have t: "0 < t" by (simp add: t_def)
  have "(59 - 2 * real_of_int m) * t = 2 * real_of_int m + 1"
    by (rule won_tie_equation [OF t tie])
  then have eq: "of_int (59 - 2 * m) * 10 powr (of_int (S - r * int n) / of_nat (400 * n))
      = (of_int (2 * m + 1) :: real)"
    by (simp add: t_def)
  have N: "0 < 400 * n" using n by simp
  have "S - r * int n = 0"
    by (rule odd_ratio_power_of_ten [OF N _ _ eq]) simp_all
  with eq have "(of_int (59 - 2 * m) :: real) = of_int (2 * m + 1)" by simp
  then have "59 - 2 * m = 2 * m + 1" by (simp only: of_int_eq_iff)
  then show False by presburger
qed

lemma loss_no_tie:
  fixes S r :: int and n :: nat
  assumes n: "0 < n"
  shows "30 * (0 - expected_score (real_of_int S / real n) r)
           - of_int \<lfloor>30 * (0 - expected_score (real_of_int S / real n) r)\<rfloor> \<noteq> 1 / 2"
proof
  define t :: real where "t = 10 powr (of_int (S - r * int n) / of_nat (400 * n))"
  define m where "m = \<lfloor>30 * (0 - expected_score (real_of_int S / real n) r)\<rfloor>"
  assume "30 * (0 - expected_score (real_of_int S / real n) r)
           - of_int \<lfloor>30 * (0 - expected_score (real_of_int S / real n) r)\<rfloor> = 1 / 2"
  then have tie: "30 * (0 - 1 / (1 + t)) - of_int m = 1 / 2"
    unfolding m_def t_def expected_score_def exponent_as_ratio [OF n] .
  have t: "0 < t" by (simp add: t_def)
  have "(2 * real_of_int m + 1) * t = - (2 * real_of_int m + 61)"
    by (rule loss_tie_equation [OF t tie])
  then have eq: "of_int (2 * m + 1) * 10 powr (of_int (S - r * int n) / of_nat (400 * n))
      = (of_int (- (2 * m + 61)) :: real)"
    by (simp add: t_def)
  have N: "0 < 400 * n" using n by simp
  have "S - r * int n = 0"
    by (rule odd_ratio_power_of_ten [OF N _ _ eq]) simp_all
  with eq have "(of_int (2 * m + 1) :: real) = of_int (- (2 * m + 61))" by simp
  then have "2 * m + 1 = - (2 * m + 61)" by (simp only: of_int_eq_iff)
  then show False by presburger
qed

lemma expected_score_bounds: "0 < expected_score a r" "expected_score a r < 1"
proof -
  have "0 < 10 powr ((a - real_of_int r) / 400)" by simp
  then show "0 < expected_score a r" "expected_score a r < 1"
    by (simp_all add: expected_score_def add_pos_pos)
qed

lemma py_round_nonneg: "0 \<le> x \<Longrightarrow> 0 \<le> py_round x"
  by (auto simp: py_round_def Let_def)

lemma py_round_nonpos: "x \<le> 0 \<Longrightarrow> py_round x \<le> 0"
proof -
  assume x: "x \<le> 0"
  have "x - of_int \<lfloor>x\<rfloor> < 1 / 2 \<or> \<lfloor>x\<rfloor> \<le> - 1"
    using x by linarith
  then show ?thesis using x
    by (auto simp: py_round_def Let_def)
qed

text \<open>The finite floats reach beyond \<open>10 ^ 300\<close> and end before \<open>10 ^ 500\<close>.\<close>

lemma float_limit_above: "10 ^ 300 < float_limit"
  by (simp add: float_limit_def)


lemma int_to_float_small:
  assumes "\<bar>real_of_int i\<bar> < float_limit"
  shows "int_to_float i = Inr (real_of_int i)"
  using assms by (simp add: int_to_float_def)

lemma small_below_float_limit: "120000 < float_limit"
proof -
  have "(120000::real) < 10 ^ 300" by simp
  with float_limit_above show ?thesis by linarith
qed

lemma expectedScore_bounded:
  assumes a: "\<bar>avg\<bar> \<le> 60000" and r: "\<bar>rating\<bar> \<le> 60000"
  shows "expectedScore avg rating = Inr (expected_score avg rating)"
proof -
  have rr: "\<bar>real_of_int rating\<bar> \<le> 60000" using r by linarith
  have gap: "\<bar>avg - real_of_int rating\<bar> \<le> 120000" using a rr by linarith
  have "avg - real_of_int rating \<le> 120000" using gap by linarith
  then have le: "(avg - real_of_int rating) / 400 \<le> 300" by simp
  have "10 powr ((avg - real_of_int rating) / 400) \<le> (10::real) powr 300"
    by (rule powr_mono [OF le]) simp
  also have "(10::real) powr 300 = 10 ^ 300" by simp
  finally have p: "10 powr ((avg - real_of_int rating) / 400) < float_limit"
    using float_limit_above by linarith
  have i: "int_to_float rating = Inr (real_of_int rating)"
    using rr small_below_float_limit by (intro int_to_float_small) linarith
  have g1: "\<not> float_limit \<le> avg - real_of_int rating"
    and g2: "\<not> avg - real_of_int rating \<le> - float_limit"
    using gap small_below_float_limit by linarith+
  show ?thesis
    using i g1 g2 p by (simp add: expectedScore_def expected_score_def)
qed

lemma expectedScore_range:
  assumes "expectedScore avg rating = Inr e"
  shows "0 \<le> e \<and> e \<le> 1"
proof -
  have "0 \<le> 1 / (1 + 10 powr x) \<and> 1 / (1 + 10 powr x) \<le> (1::real)" for x :: real
  proof -
    define p :: real where "p = 10 powr x"
    have p: "0 \<le> p" by (simp add: p_def)
    then have pos: "0 < 1 + p" by linarith
    have "1 / (1 + p) \<le> 1 \<longleftrightarrow> 1 \<le> 1 + p" by (rule divide_le_eq_1_pos [OF pos])
    with p have "1 / (1 + p) \<le> 1" by simp
    moreover have "0 \<le> 1 / (1 + p)" using pos by simp
    ultimately show ?thesis by (simp add: p_def)
  qed
  with assms show ?thesis
    by (auto simp: expectedScore_def split: sum.splits if_splits)
qed

lemma sum_list_bounded:
  assumes "\<forall>r \<in> set rs. \<bar>r\<bar> \<le> (B::int)"
  shows "\<bar>sum_list rs\<bar> \<le> B * int (length rs)"
  using assms
proof (induction rs)
  case Nil
  then show ?case by simp
next
  case (Cons r rs)
  then have "\<bar>r\<bar> \<le> B" and "\<bar>sum_list rs\<bar> \<le> B * int (length rs)" by simp_all
  then have "\<bar>r + sum_list rs\<bar> \<le> B + B * int (length rs)" by linarith
  then show ?case by (simp add: algebra_simps)
qed

lemma mean_rating_bounded:
  assumes ne: "d \<noteq> []" and b: "\<forall>r \<in> snd ` set d. \<bar>r\<bar> \<le> B"
  shows "\<bar>mean_rating d\<bar> \<le> real_of_int B"
proof -
  let ?n = "length d"
  have n: "0 < real ?n" using ne by simp
  from b have "\<forall>r \<in> set (map snd d). \<bar>r\<bar> \<le> B" by simp
  from sum_list_bounded [OF this]
  have "\<bar>sum_list (map snd d)\<bar> \<le> B * int ?n" by simp
  then have "real_of_int \<bar>sum_list (map snd d)\<bar> \<le> real_of_int (B * int ?n)"
    by (rule of_int_le_iff [THEN iffD2])
  then have "\<bar>real_of_int (sum_list (map snd d))\<bar> \<le> real_of_int B * real ?n"
    by simp
  then have "\<bar>real_of_int (sum_list (map snd d))\<bar> / real ?n \<le> real_of_int B"
    using n by (simp add: field_simps)
  then show ?thesis by (simp add: mean_rating_def)
qed

lemma true_divide_mean:
  assumes ne: "d \<noteq> []" and b: "\<forall>r \<in> snd ` set d. \<bar>r\<bar> \<le> 60000"
    and len: "length team = length d"
  shows "true_divide (dict_sum d) (length team) = Inr (mean_rating d)"
proof -
  from mean_rating_bounded [OF ne b] have "\<bar>mean_rating d\<bar> \<le> 60000" by simp
  then have "\<not> float_limit \<le> \<bar>mean_rating d\<bar>"
    using small_below_float_limit by linarith
  then show ?thesis
    using ne by (simp add: true_divide_def len mean_rating_def dict_sum_def)
qed

text \<open>
  The result of one loop for ratings and an average within 60000 of zero, where no float
  operation leaves the finite range.
\<close>

lemma adjust_side_result:
  assumes keys: "set team \<subseteq> fst ` set eloTeam"
    and b: "\<forall>r \<in> snd ` set eloTeam. \<bar>r\<bar> \<le> 60000"
    and a: "\<bar>avg\<bar> \<le> 60000"
    and k: "\<bar>real_of_int K\<bar> < float_limit"
  shows "\<exists>adj. adjust_side K avg eloTeam team acc = Inr adj
     \<and> (\<forall>p. adj p = (if p \<in> set team
                      then map_option (py_predicted K avg) (map_of eloTeam p) else acc p))"
  using keys
proof (induction team arbitrary: acc)
  case Nil
  then show ?case by simp
next
  case (Cons x rest)
  from Cons.prems obtain r where r: "map_of eloTeam x = Some r"
    by (cases "map_of eloTeam x") (auto simp: map_of_eq_None_iff)
  then have "(x, r) \<in> set eloTeam" by (rule map_of_SomeD)
  then have "r \<in> snd ` set eloTeam" by force
  with b have "\<bar>r\<bar> \<le> 60000" by blast
  from expectedScore_bounded [OF a this]
  have e: "expectedScore avg r = Inr (expected_score avg r)" .
  note kf = int_to_float_small [OF k]
  let ?acc = "acc(x \<mapsto> py_predicted K avg r)"
  from Cons.prems have "set rest \<subseteq> fst ` set eloTeam" by simp
  from Cons.IH [OF this, of ?acc] obtain adj where
    adj: "adjust_side K avg eloTeam rest ?acc = Inr adj"
    "\<forall>p. adj p = (if p \<in> set rest
                      then map_option (py_predicted K avg) (map_of eloTeam p) else ?acc p)"
    by blast
  have "adjust_side K avg eloTeam (x # rest) acc = Inr adj"
    using r e kf adj(1) by (simp add: py_predicted_def)
  moreover have "\<forall>p. adj p = (if p \<in> set (x # rest)
                      then map_option (py_predicted K avg) (map_of eloTeam p) else acc p)"
    using adj(2) r by auto
  ultimately show ?case by blast
qed

lemma calculatePreGameElo_result:
  assumes red: "redTeam m \<noteq> []" and blue: "blueTeam m \<noteq> []"
    and kr: "map fst (eloRedTeam m) = redTeam m"
    and kb: "map fst (eloBlueTeam m) = blueTeam m"
    and b: "\<forall>r \<in> ratings_of m. \<bar>r\<bar> \<le> 60000"
    and k: "\<bar>real_of_int K\<bar> < float_limit"
  shows "\<exists>calc. calculatePreGameElo m K = Inr calc
     \<and> (\<forall>p. redAdjustments calc p
            = map_option (py_predicted K (mean_rating (eloBlueTeam m))) (map_of (eloRedTeam m) p))
     \<and> (\<forall>p. blueAdjustments calc p
            = map_option (py_predicted K (mean_rating (eloRedTeam m))) (map_of (eloBlueTeam m) p))"
proof -
  have lr: "length (redTeam m) = length (eloRedTeam m)"
    and lb: "length (blueTeam m) = length (eloBlueTeam m)"
    using kr kb by (metis length_map)+
  have ner: "eloRedTeam m \<noteq> []" and neb: "eloBlueTeam m \<noteq> []"
    using red blue lr lb by auto
  have br: "\<forall>r \<in> snd ` set (eloRedTeam m). \<bar>r\<bar> \<le> 60000"
    and bb: "\<forall>r \<in> snd ` set (eloBlueTeam m). \<bar>r\<bar> \<le> 60000"
    using b by (auto simp: ratings_of_def)
  note avgB = true_divide_mean [OF neb bb lb]
  note avgR = true_divide_mean [OF ner br lr]
  have mb: "\<bar>mean_rating (eloBlueTeam m)\<bar> \<le> 60000"
    using mean_rating_bounded [OF neb bb] by simp
  have mr: "\<bar>mean_rating (eloRedTeam m)\<bar> \<le> 60000"
    using mean_rating_bounded [OF ner br] by simp
  have sr: "set (redTeam m) \<subseteq> fst ` set (eloRedTeam m)"
    and sb: "set (blueTeam m) \<subseteq> fst ` set (eloBlueTeam m)"
    using kr kb by (metis set_map subset_refl)+
  from adjust_side_result [OF sr br mb k, of Map.empty]
  obtain ra where ra: "adjust_side K (mean_rating (eloBlueTeam m)) (eloRedTeam m) (redTeam m)
        Map.empty = Inr ra"
    "\<forall>p. ra p = (if p \<in> set (redTeam m)
        then map_option (py_predicted K (mean_rating (eloBlueTeam m))) (map_of (eloRedTeam m) p)
        else None)"
    by auto
  from adjust_side_result [OF sb bb mr k, of Map.empty]
  obtain ba where ba: "adjust_side K (mean_rating (eloRedTeam m)) (eloBlueTeam m) (blueTeam m)
        Map.empty = Inr ba"
    "\<forall>p. ba p = (if p \<in> set (blueTeam m)
        then map_option (py_predicted K (mean_rating (eloRedTeam m))) (map_of (eloBlueTeam m) p)
        else None)"
    by auto
  have none_r: "map_of (eloRedTeam m) p = None" if "p \<notin> set (redTeam m)" for p
    using that kr by (metis map_of_eq_None_iff set_map)
  have none_b: "map_of (eloBlueTeam m) p = None" if "p \<notin> set (blueTeam m)" for p
    using that kb by (metis map_of_eq_None_iff set_map)
  have run: "calculatePreGameElo m K = Inr \<lparr>redAdjustments = ra, blueAdjustments = ba\<rparr>"
    using ra(1) ba(1) by (simp add: calculatePreGameElo_def avgB avgR)
  have "\<forall>p. ra p = map_option (py_predicted K (mean_rating (eloBlueTeam m)))
                      (map_of (eloRedTeam m) p)"
    using ra(2) none_r by auto
  moreover have "\<forall>p. ba p = map_option (py_predicted K (mean_rating (eloRedTeam m)))
                      (map_of (eloBlueTeam m) p)"
    using ba(2) none_b by auto
  ultimately show ?thesis using run by simp
qed

text \<open>
  What holds of every result that a loop, and the function, returns, whatever the
  ratings: the players of the side get an entry, and for a non-negative K no entry has a
  negative \<open>won\<close> or a positive \<open>loss\<close>.
\<close>

lemma adjust_side_returned_dom:
  assumes "adjust_side K avg eloTeam team acc = Inr adj"
  shows "dom adj = dom acc \<union> set team"
  using assms
proof (induction team arbitrary: acc)
  case Nil
  then show ?case by simp
next
  case (Cons x rest)
  from Cons.prems obtain r e k where
    "adjust_side K avg eloTeam rest
       (acc(x \<mapsto> \<lparr>won = py_round (k * (1 - e)), loss = py_round (k * (0 - e))\<rparr>)) = Inr adj"
    by (auto split: option.splits sum.splits)
  from Cons.IH [OF this] show ?case by auto
qed

lemma adjust_side_returned_signs:
  assumes "adjust_side K avg eloTeam team acc = Inr adj" and "0 \<le> K"
  shows "\<forall>p a. adj p = Some a \<longrightarrow> acc p = Some a \<or> (0 \<le> won a \<and> loss a \<le> 0)"
  using assms(1)
proof (induction team arbitrary: acc)
  case Nil
  then show ?case by simp
next
  case (Cons x rest)
  from Cons.prems obtain r e k where
    e: "expectedScore avg r = Inr e" and k: "int_to_float K = Inr k"
    and run: "adjust_side K avg eloTeam rest
       (acc(x \<mapsto> \<lparr>won = py_round (k * (1 - e)), loss = py_round (k * (0 - e))\<rparr>)) = Inr adj"
    by (auto split: option.splits sum.splits)
  from k assms(2) have k0: "0 \<le> k"
    by (auto simp: int_to_float_def split: if_splits)
  from expectedScore_range [OF e] have e01: "0 \<le> e" "e \<le> 1" by simp_all
  have "0 \<le> k * (1 - e)" using k0 e01 by simp
  then have w: "0 \<le> py_round (k * (1 - e))" by (rule py_round_nonneg)
  have "k * (0 - e) \<le> 0" using k0 e01 by (simp add: mult_nonneg_nonpos)
  then have l: "py_round (k * (0 - e)) \<le> 0" by (rule py_round_nonpos)
  let ?new = "\<lparr>won = py_round (k * (1 - e)), loss = py_round (k * (0 - e))\<rparr>"
  note ih = Cons.IH [OF run]
  show ?case
  proof (intro allI impI)
    fix p a assume pa: "adj p = Some a"
    with ih have c: "(acc(x \<mapsto> ?new)) p = Some a \<or> (0 \<le> won a \<and> loss a \<le> 0)"
      by blast
    show "acc p = Some a \<or> (0 \<le> won a \<and> loss a \<le> 0)"
    proof (cases "p = x")
      case True
      with c have "a = ?new \<or> (0 \<le> won a \<and> loss a \<le> 0)" by auto
      with w l show ?thesis by auto
    next
      case False
      with c show ?thesis by simp
    qed
  qed
qed

lemma calculatePreGameElo_returned:
  assumes "calculatePreGameElo m K = Inr calc"
  shows "dom (redAdjustments calc) = set (redTeam m)"
    and "dom (blueAdjustments calc) = set (blueTeam m)"
    and "redTeam m \<noteq> []" and "blueTeam m \<noteq> []"
    and "0 \<le> K \<Longrightarrow> \<forall>p a. redAdjustments calc p = Some a \<or> blueAdjustments calc p = Some a
           \<longrightarrow> 0 \<le> won a \<and> loss a \<le> 0"
proof -
  from assms obtain avgB avgR where
    ab: "true_divide (dict_sum (eloBlueTeam m)) (length (blueTeam m)) = Inr avgB"
    and ar: "true_divide (dict_sum (eloRedTeam m)) (length (redTeam m)) = Inr avgR"
    and r: "adjust_side K avgB (eloRedTeam m) (redTeam m) Map.empty
              = Inr (redAdjustments calc)"
    and b: "adjust_side K avgR (eloBlueTeam m) (blueTeam m) Map.empty
              = Inr (blueAdjustments calc)"
    by (auto simp: calculatePreGameElo_def split: sum.splits)
  from adjust_side_returned_dom [OF r] show "dom (redAdjustments calc) = set (redTeam m)"
    by simp
  from adjust_side_returned_dom [OF b] show "dom (blueAdjustments calc) = set (blueTeam m)"
    by simp
  from ar show "redTeam m \<noteq> []" by (auto simp: true_divide_def split: if_splits)
  from ab show "blueTeam m \<noteq> []" by (auto simp: true_divide_def split: if_splits)
  show "\<forall>p a. redAdjustments calc p = Some a \<or> blueAdjustments calc p = Some a
           \<longrightarrow> 0 \<le> won a \<and> loss a \<le> 0" if "0 \<le> K"
    using adjust_side_returned_signs [OF r that] adjust_side_returned_signs [OF b that]
    by auto
qed

text \<open>
  The two formulations of rounding a half to the even neighbour agree.
\<close>

lemma py_round_half_even: "py_round x = round_half_even x"
proof -
  define f where "f = \<lfloor>x\<rfloor>"
  define d where "d = x - of_int f"
  have d01: "0 \<le> d" "d < 1" unfolding d_def f_def by linarith+
  have x: "x = of_int f + d" by (simp add: d_def)
  have py: "py_round x = (if d < 1 / 2 then f else if d > 1 / 2 then f + 1
                           else if even f then f else f + 1)"
    unfolding py_round_def Let_def d_def f_def by (rule refl)
  have he: "round_half_even x
      = (if of_int \<lfloor>x + 1 / 2\<rfloor> = x + 1 / 2 \<and> odd \<lfloor>x + 1 / 2\<rfloor>
         then \<lfloor>x + 1 / 2\<rfloor> - 1 else \<lfloor>x + 1 / 2\<rfloor>)"
    unfolding round_half_even_def Let_def by (rule refl)
  consider "d < 1 / 2" | "d = 1 / 2" | "1 / 2 < d" by linarith
  then show ?thesis
  proof cases
    case 1
    have fl: "\<lfloor>x + 1 / 2\<rfloor> = f"
      using 1 d01 by (intro floor_unique) (simp_all add: x)
    have ne: "real_of_int f \<noteq> x + 1 / 2" using d01 by (simp add: x)
    have "py_round x = f" using 1 by (simp add: py)
    moreover have "round_half_even x = f" unfolding he fl using ne by simp
    ultimately show ?thesis by simp
  next
    case 2
    have fl: "\<lfloor>x + 1 / 2\<rfloor> = f + 1"
      using 2 by (intro floor_unique) (simp_all add: x)
    have tie: "real_of_int (f + 1) = x + 1 / 2" using 2 by (simp add: x)
    have "py_round x = (if even f then f else f + 1)" using 2 by (simp add: py)
    moreover have "round_half_even x = (if odd (f + 1) then f + 1 - 1 else f + 1)"
      unfolding he fl using tie by simp
    ultimately show ?thesis by simp
  next
    case 3
    have fl: "\<lfloor>x + 1 / 2\<rfloor> = f + 1"
      using 3 d01 by (intro floor_unique) (simp_all add: x)
    have ne: "real_of_int (f + 1) \<noteq> x + 1 / 2" using 3 by (simp add: x)
    have "py_round x = f + 1" using 3 by (simp add: py)
    moreover have "round_half_even x = f + 1" unfolding he fl using ne by simp
    ultimately show ?thesis by simp
  qed
qed

lemma mean_rating_ratio:
  "mean_rating d = real_of_int (sum_list (map snd d)) / real (length d)"
  by (simp add: mean_rating_def)

lemma py_predicted_30:
  assumes "d \<noteq> []"
  shows "py_predicted 30 (mean_rating d) r = predicted (mean_rating d) r"
proof -
  have n: "0 < length d" using assms by simp
  show ?thesis
    unfolding py_predicted_def predicted_def mean_rating_def
    using py_round_no_tie [OF won_no_tie [OF n, of "sum_list (map snd d)" r]]
      py_round_no_tie [OF loss_no_tie [OF n, of "sum_list (map snd d)" r]]
    by simp
qed

lemma twentieth_root_bounds:
  fixes y lo hi c :: real
  assumes y: "0 < y" and pw: "y ^ 20 = c" and lo: "0 \<le> lo" "lo ^ 20 < c" and hi: "0 \<le> hi" "c < hi ^ 20"
  shows "lo < y \<and> y < hi"
proof -
  have "lo < y"
  proof (rule ccontr)
    assume "\<not> lo < y"
    then have "y ^ 20 \<le> lo ^ 20" using y by (intro power_mono) simp_all
    with pw lo(2) show False by simp
  qed
  moreover have "y < hi"
  proof (rule ccontr)
    assume "\<not> y < hi"
    then have "hi ^ 20 \<le> y ^ 20" using hi(1) by (intro power_mono) simp_all
    with pw hi(2) show False by simp
  qed
  ultimately show ?thesis ..
qed

lemma ten_powr_twentieth:
  "(10 powr (1 / 20) :: real) ^ 20 = 10" "(10 powr (- 1 / 20) :: real) ^ 20 = 1 / 10"
proof -
  have pw: "(10 powr a :: real) ^ 20 = 10 powr (a * 20)" for a :: real
    using powr_realpow [of "10 powr a" 20] by (simp add: powr_powr)
  show "(10 powr (1 / 20) :: real) ^ 20 = 10" by (simp add: pw)
  have "(10 powr (- 1 / 20) :: real) ^ 20 = 10 powr ((- 1 / 20) * 20)" by (rule pw)
  also have "\<dots> = 10 powr (- 1)" by simp
  also have "\<dots> = 1 / 10" by (simp add: powr_minus_divide)
  finally show "(10 powr (- 1 / 20) :: real) ^ 20 = 1 / 10" .
qed

lemma predicted_100_120: "predicted 100 120 = \<lparr>won = 14, loss = - 16\<rparr>"
proof -
  define y :: real where "y = 10 powr (- 1 / 20)"
  have y0: "0 < y" by (simp add: y_def)
  have "(89 / 100) < y \<and> y < (9 / 10)"
    by (rule twentieth_root_bounds [OF y0 ten_powr_twentieth(2) [folded y_def]])
      (simp_all add: power_divide)
  then have lo: "89 / 100 < y" and hi: "y < 9 / 10" by simp_all
  define E where "E = 1 / (1 + y)"
  have E: "expected_score 100 120 = E"
    by (simp add: expected_score_def E_def y_def)
  have "E * (1 + y) = 1" using y0 by (simp add: E_def)
  then have Ey: "E + E * y = 1" by (simp add: algebra_simps)
  have E0: "0 < E" using y0 by (simp add: E_def)
  have "E * (89 / 100) < E * y" "E * y < E * (9 / 10)"
    using lo hi E0 by simp_all
  with Ey have Eb: "10 / 19 < E" "E < 100 / 189" by linarith+
  have w: "\<lfloor>30 * (1 - E) + 1 / 2\<rfloor> = 14"
  proof -
    have "14 \<le> 30 * (1 - E) + 1 / 2" "30 * (1 - E) + 1 / 2 < 14 + 1" using Eb by simp_all
    then show ?thesis by (simp add: floor_eq_iff)
  qed
  have l: "\<lfloor>- (30 * (0 - E)) + 1 / 2\<rfloor> = 16"
  proof -
    have "16 \<le> - (30 * (0 - E)) + 1 / 2" "- (30 * (0 - E)) + 1 / 2 < 16 + 1" using Eb by simp_all
    then show ?thesis by (simp add: floor_eq_iff)
  qed
  have neg: "\<not> 0 \<le> 30 * (0 - E)" using E0 by simp
  have pos: "0 \<le> 30 * (1 - E)" using Eb by simp
  show ?thesis
    unfolding predicted_def E round_half_away_def using w l neg pos by simp
qed

lemma predicted_120_100: "predicted 120 100 = \<lparr>won = 16, loss = - 14\<rparr>"
proof -
  define y :: real where "y = 10 powr (1 / 20)"
  have y0: "0 < y" by (simp add: y_def)
  have "(112 / 100) < y \<and> y < (113 / 100)"
    by (rule twentieth_root_bounds [OF y0 ten_powr_twentieth(1) [folded y_def]])
      (simp_all add: power_divide)
  then have lo: "112 / 100 < y" and hi: "y < 113 / 100" by simp_all
  define E where "E = 1 / (1 + y)"
  have E: "expected_score 120 100 = E"
    by (simp add: expected_score_def E_def y_def)
  have "E * (1 + y) = 1" using y0 by (simp add: E_def)
  then have Ey: "E + E * y = 1" by (simp add: algebra_simps)
  have E0: "0 < E" using y0 by (simp add: E_def)
  have "E * (112 / 100) < E * y" "E * y < E * (113 / 100)"
    using lo hi E0 by simp_all
  with Ey have Eb: "100 / 213 < E" "E < 100 / 212" by linarith+
  have w: "\<lfloor>30 * (1 - E) + 1 / 2\<rfloor> = 16"
  proof -
    have "16 \<le> 30 * (1 - E) + 1 / 2" "30 * (1 - E) + 1 / 2 < 16 + 1" using Eb by simp_all
    then show ?thesis by (simp add: floor_eq_iff)
  qed
  have l: "\<lfloor>- (30 * (0 - E)) + 1 / 2\<rfloor> = 14"
  proof -
    have "14 \<le> - (30 * (0 - E)) + 1 / 2" "- (30 * (0 - E)) + 1 / 2 < 14 + 1" using Eb by simp_all
    then show ?thesis by (simp add: floor_eq_iff)
  qed
  have neg: "\<not> 0 \<le> 30 * (0 - E)" using E0 by simp
  have pos: "0 \<le> 30 * (1 - E)" using Eb by simp
  show ?thesis
    unfolding predicted_def E round_half_away_def using w l neg pos by simp
qed

lemma thirty_below_float_limit: "\<bar>real_of_int 30\<bar> < float_limit"
  using small_below_float_limit by simp

lemma calculatePreGameElo_dom:
  assumes "redTeam m \<noteq> []" and "blueTeam m \<noteq> []"
    and "map fst (eloRedTeam m) = redTeam m"
    and "map fst (eloBlueTeam m) = blueTeam m"
    and "\<forall>r \<in> ratings_of m. \<bar>r\<bar> \<le> 60000"
  shows "\<exists>calc. calculatePreGameElo m 30 = Inr calc
     \<and> dom (redAdjustments calc) = set (redTeam m)
     \<and> dom (blueAdjustments calc) = set (blueTeam m)"
proof -
  from calculatePreGameElo_result [OF assms thirty_below_float_limit] obtain calc where
    run: "calculatePreGameElo m 30 = Inr calc"
    by blast
  from calculatePreGameElo_returned(1,2) [OF run] run show ?thesis by blast
qed

text \<open>
  Claim C7, as stated, fails for K = 5 and two players of rating 100: the expected score
  is 1 / 2 and \<open>5 * (1 - 1 / 2)\<close> is 5 / 2, which the code rounds to 2 and a rounding of
  a half away from zero takes to 3; likewise - 5 / 2 becomes - 2 and not - 3.
\<close>

theorem calculatePreGameElo_tie_counterexample:
  "calculatePreGameElo \<lparr>redTeam = [1], blueTeam = [2], eloRedTeam = [(1, 100)],
        eloBlueTeam = [(2, 100)], eloDifference = 0\<rparr> 5
     = Inr \<lparr>redAdjustments = [1 \<mapsto> \<lparr>won = 2, loss = - 2\<rparr>],
            blueAdjustments = [2 \<mapsto> \<lparr>won = 2, loss = - 2\<rparr>]\<rparr>
   \<and> mean_rating [(2, 100)] = 100
   \<and> expected_score 100 100 = 1 / 2
   \<and> round_half_away (5 * (1 - expected_score 100 100)) = 3
   \<and> round_half_away (5 * (0 - expected_score 100 100)) = - 3"
proof -
  have lim: "\<not> float_limit \<le> 100" "\<not> float_limit \<le> 5"
    using small_below_float_limit by linarith+
  have td: "true_divide 100 (Suc 0) = Inr 100"
    using lim by (simp add: true_divide_def)
  have es: "expected_score 100 100 = 1 / 2"
    by (simp add: expected_score_def)
  have e: "expectedScore 100 100 = Inr (1 / 2)"
    using expectedScore_bounded [of 100 100] es by simp
  have k: "int_to_float 5 = Inr 5"
    using lim by (simp add: int_to_float_def)
  have w: "py_round (5 * (1 - 1 / 2)) = 2" and l: "py_round (5 * (0 - 1 / 2)) = - 2"
    by (simp_all add: py_round_def Let_def)
  have c1: "calculatePreGameElo \<lparr>redTeam = [1], blueTeam = [2], eloRedTeam = [(1, 100)],
        eloBlueTeam = [(2, 100)], eloDifference = 0\<rparr> 5
     = Inr \<lparr>redAdjustments = [1 \<mapsto> \<lparr>won = 2, loss = - 2\<rparr>],
            blueAdjustments = [2 \<mapsto> \<lparr>won = 2, loss = - 2\<rparr>]\<rparr>"
    using w l by (simp add: calculatePreGameElo_def dict_sum_def td e k)
  have c2: "mean_rating [(2, 100)] = 100"
    by (simp add: mean_rating_def)
  have c4: "round_half_away (5 * (1 - expected_score 100 100)) = 3"
    and c5: "round_half_away (5 * (0 - expected_score 100 100)) = - 3"
    unfolding es by (simp_all add: round_half_away_def)
  show ?thesis
    by (intro conjI) (rule c1 c2 es c4 c5)+
qed

text \<open>
  Claim C7, amended. For a matchup with two non-empty sides whose rating dicts list the
  players of the sides, ratings of magnitude at most 60000 and an integer K from 0 to
  1000, \<^verbatim>\<open>calculatePreGameElo\<close> returns, for every player p with rating r, the changes
  \<open>won = round (K * (1 - E))\<close> and \<open>loss = round (K * (0 - E))\<close> where
  \<open>E = 1 / (1 + 10 powr ((avgOpp - r) / 400))\<close>, \<open>avgOpp\<close> is the arithmetic mean of the
  ratings of the other side, and a half is rounded to the even neighbour; it returns
  changes for exactly the players of the two sides. For K = 30 no rounded value is a half
  (lemmas \<open>won_no_tie\<close> and \<open>loss_no_tie\<close>), and the changes are also the values rounded
  with a half away from zero. For avgOpp = 100, rating 120 and K = 30 the changes are 14
  and - 16 under both roundings.
\<close>

theorem calculatePreGameElo_formula:
  assumes "redTeam m \<noteq> []" and "blueTeam m \<noteq> []"
    and "map fst (eloRedTeam m) = redTeam m"
    and "map fst (eloBlueTeam m) = blueTeam m"
    and "\<forall>r \<in> ratings_of m. \<bar>r\<bar> \<le> 60000"
    and "0 \<le> K" and "K \<le> 1000"
  shows "\<exists>calc. calculatePreGameElo m K = Inr calc
     \<and> (\<forall>p r. map_of (eloRedTeam m) p = Some r \<longrightarrow>
          redAdjustments calc p
            = Some \<lparr>won = round_half_even
                      (real_of_int K * (1 - expected_score (mean_rating (eloBlueTeam m)) r)),
                    loss = round_half_even
                      (real_of_int K * (0 - expected_score (mean_rating (eloBlueTeam m)) r))\<rparr>)
     \<and> (\<forall>p r. map_of (eloBlueTeam m) p = Some r \<longrightarrow>
          blueAdjustments calc p
            = Some \<lparr>won = round_half_even
                      (real_of_int K * (1 - expected_score (mean_rating (eloRedTeam m)) r)),
                    loss = round_half_even
                      (real_of_int K * (0 - expected_score (mean_rating (eloRedTeam m)) r))\<rparr>)
     \<and> dom (redAdjustments calc) = set (redTeam m)
     \<and> dom (blueAdjustments calc) = set (blueTeam m)
     \<and> (K = 30 \<longrightarrow>
          (\<forall>p r. map_of (eloRedTeam m) p = Some r \<longrightarrow>
             redAdjustments calc p
               = Some \<lparr>won = round_half_away
                         (30 * (1 - expected_score (mean_rating (eloBlueTeam m)) r)),
                       loss = round_half_away
                         (30 * (0 - expected_score (mean_rating (eloBlueTeam m)) r))\<rparr>)
        \<and> (\<forall>p r. map_of (eloBlueTeam m) p = Some r \<longrightarrow>
             blueAdjustments calc p
               = Some \<lparr>won = round_half_away
                         (30 * (1 - expected_score (mean_rating (eloRedTeam m)) r)),
                       loss = round_half_away
                         (30 * (0 - expected_score (mean_rating (eloRedTeam m)) r))\<rparr>))
     \<and> expected_score 100 120 = 1 / (1 + 10 powr ((100 - 120) / 400))
     \<and> round_half_even (30 * (1 - expected_score 100 120)) = 14
     \<and> round_half_even (30 * (0 - expected_score 100 120)) = - 16
     \<and> round_half_away (30 * (1 - expected_score 100 120)) = 14
     \<and> round_half_away (30 * (0 - expected_score 100 120)) = - 16"
proof -
  have "\<bar>real_of_int K\<bar> \<le> 1000" using assms(6,7) by simp
  then have k: "\<bar>real_of_int K\<bar> < float_limit"
    using small_below_float_limit by linarith
  from calculatePreGameElo_result [OF assms(1-5) k] obtain calc where
    run: "calculatePreGameElo m K = Inr calc"
    and r: "\<forall>p. redAdjustments calc p
            = map_option (py_predicted K (mean_rating (eloBlueTeam m))) (map_of (eloRedTeam m) p)"
    and b: "\<forall>p. blueAdjustments calc p
            = map_option (py_predicted K (mean_rating (eloRedTeam m))) (map_of (eloBlueTeam m) p)"
    by blast
  have ne: "eloRedTeam m \<noteq> []" "eloBlueTeam m \<noteq> []"
    using assms(1-4) by auto
  have c1: "\<forall>p r. map_of (eloRedTeam m) p = Some r \<longrightarrow>
          redAdjustments calc p
            = Some \<lparr>won = round_half_even
                      (real_of_int K * (1 - expected_score (mean_rating (eloBlueTeam m)) r)),
                    loss = round_half_even
                      (real_of_int K * (0 - expected_score (mean_rating (eloBlueTeam m)) r))\<rparr>"
    using r by (simp add: py_predicted_def py_round_half_even)
  have c2: "\<forall>p r. map_of (eloBlueTeam m) p = Some r \<longrightarrow>
          blueAdjustments calc p
            = Some \<lparr>won = round_half_even
                      (real_of_int K * (1 - expected_score (mean_rating (eloRedTeam m)) r)),
                    loss = round_half_even
                      (real_of_int K * (0 - expected_score (mean_rating (eloRedTeam m)) r))\<rparr>"
    using b by (simp add: py_predicted_def py_round_half_even)
  note c3 = calculatePreGameElo_returned(1) [OF run]
  note c4 = calculatePreGameElo_returned(2) [OF run]
  have c5: "K = 30 \<longrightarrow>
          (\<forall>p r. map_of (eloRedTeam m) p = Some r \<longrightarrow>
             redAdjustments calc p
               = Some \<lparr>won = round_half_away
                         (30 * (1 - expected_score (mean_rating (eloBlueTeam m)) r)),
                       loss = round_half_away
                         (30 * (0 - expected_score (mean_rating (eloBlueTeam m)) r))\<rparr>)
        \<and> (\<forall>p r. map_of (eloBlueTeam m) p = Some r \<longrightarrow>
             blueAdjustments calc p
               = Some \<lparr>won = round_half_away
                         (30 * (1 - expected_score (mean_rating (eloRedTeam m)) r)),
                       loss = round_half_away
                         (30 * (0 - expected_score (mean_rating (eloRedTeam m)) r))\<rparr>)"
  proof (intro impI conjI)
    assume K: "K = 30"
    show "\<forall>p r. map_of (eloRedTeam m) p = Some r \<longrightarrow>
             redAdjustments calc p
               = Some \<lparr>won = round_half_away
                         (30 * (1 - expected_score (mean_rating (eloBlueTeam m)) r)),
                       loss = round_half_away
                         (30 * (0 - expected_score (mean_rating (eloBlueTeam m)) r))\<rparr>"
      using r py_predicted_30 [OF ne(2)] unfolding K by (simp add: predicted_def)
    show "\<forall>p r. map_of (eloBlueTeam m) p = Some r \<longrightarrow>
             blueAdjustments calc p
               = Some \<lparr>won = round_half_away
                         (30 * (1 - expected_score (mean_rating (eloRedTeam m)) r)),
                       loss = round_half_away
                         (30 * (0 - expected_score (mean_rating (eloRedTeam m)) r))\<rparr>"
      using b py_predicted_30 [OF ne(1)] unfolding K by (simp add: predicted_def)
  qed
  have c6: "expected_score 100 120 = 1 / (1 + 10 powr ((100 - 120) / 400))"
    by (simp add: expected_score_def)
  have c9: "round_half_away (30 * (1 - expected_score 100 120)) = 14"
    and c10: "round_half_away (30 * (0 - expected_score 100 120)) = - 16"
    using predicted_100_120 by (simp_all add: predicted_def)
  have m100: "mean_rating [(0, 100)] = 100" by (simp add: mean_rating_def)
  have "py_predicted 30 100 120 = predicted 100 120"
    using py_predicted_30 [of "[(0, 100)]" 120] unfolding m100 by simp
  then have "py_predicted 30 100 120 = \<lparr>won = 14, loss = - 16\<rparr>"
    using predicted_100_120 by simp
  then have c7: "round_half_even (30 * (1 - expected_score 100 120)) = 14"
    and c8: "round_half_even (30 * (0 - expected_score 100 120)) = - 16"
    by (simp_all add: py_predicted_def py_round_half_even)
  show ?thesis
    by (rule exI [of _ calc], intro conjI) (rule run c1 c2 c3 c4 c5 c6 c7 c8 c9 c10)+
qed

theorem calculatePreGameElo_formula_witness:
  "redTeam \<lparr>redTeam = [1], blueTeam = [2], eloRedTeam = [(1, 120)],
            eloBlueTeam = [(2, 100)], eloDifference = 20\<rparr> \<noteq> []
   \<and> blueTeam \<lparr>redTeam = [1], blueTeam = [2], eloRedTeam = [(1, 120)],
            eloBlueTeam = [(2, 100)], eloDifference = 20\<rparr> \<noteq> []
   \<and> (0::int) \<le> 30 \<and> (30::int) \<le> 1000
   \<and> (\<exists>calc. calculatePreGameElo \<lparr>redTeam = [1], blueTeam = [2], eloRedTeam = [(1, 120)],
            eloBlueTeam = [(2, 100)], eloDifference = 20\<rparr> 30 = Inr calc
        \<and> redAdjustments calc 1 = Some \<lparr>won = 14, loss = - 16\<rparr>
        \<and> blueAdjustments calc 2 = Some \<lparr>won = 16, loss = - 14\<rparr>)"
proof -
  let ?m = "\<lparr>redTeam = [1], blueTeam = [2], eloRedTeam = [(1, 120)],
            eloBlueTeam = [(2, 100)], eloDifference = 20\<rparr>"
  have h: "redTeam ?m \<noteq> []" "blueTeam ?m \<noteq> []"
    "map fst (eloRedTeam ?m) = redTeam ?m" "map fst (eloBlueTeam ?m) = blueTeam ?m"
    "\<forall>r \<in> ratings_of ?m. \<bar>r\<bar> \<le> 60000"
    by (simp_all add: ratings_of_def)
  have k: "(0::int) \<le> 30" "(30::int) \<le> 1000" by simp_all
  from calculatePreGameElo_formula [OF h k] obtain calc where
    run: "calculatePreGameElo ?m 30 = Inr calc"
    and k30: "(30::int) = 30 \<longrightarrow>
          (\<forall>p r. map_of (eloRedTeam ?m) p = Some r \<longrightarrow>
             redAdjustments calc p
               = Some \<lparr>won = round_half_away
                         (30 * (1 - expected_score (mean_rating (eloBlueTeam ?m)) r)),
                       loss = round_half_away
                         (30 * (0 - expected_score (mean_rating (eloBlueTeam ?m)) r))\<rparr>)
        \<and> (\<forall>p r. map_of (eloBlueTeam ?m) p = Some r \<longrightarrow>
             blueAdjustments calc p
               = Some \<lparr>won = round_half_away
                         (30 * (1 - expected_score (mean_rating (eloRedTeam ?m)) r)),
                       loss = round_half_away
                         (30 * (0 - expected_score (mean_rating (eloRedTeam ?m)) r))\<rparr>)"
    by (elim exE conjE)
  from k30 have
    r: "\<forall>p r. map_of (eloRedTeam ?m) p = Some r \<longrightarrow>
          redAdjustments calc p
            = Some \<lparr>won = round_half_away
                      (30 * (1 - expected_score (mean_rating (eloBlueTeam ?m)) r)),
                    loss = round_half_away
                      (30 * (0 - expected_score (mean_rating (eloBlueTeam ?m)) r))\<rparr>"
    and b: "\<forall>p r. map_of (eloBlueTeam ?m) p = Some r \<longrightarrow>
          blueAdjustments calc p
            = Some \<lparr>won = round_half_away
                      (30 * (1 - expected_score (mean_rating (eloRedTeam ?m)) r)),
                    loss = round_half_away
                      (30 * (0 - expected_score (mean_rating (eloRedTeam ?m)) r))\<rparr>"
    by blast+
  have mr: "mean_rating (eloRedTeam ?m) = 120" and mb: "mean_rating (eloBlueTeam ?m) = 100"
    by (simp_all add: mean_rating_def)
  have "map_of (eloRedTeam ?m) 1 = Some 120" by simp
  from r [rule_format, OF this] have c1: "redAdjustments calc 1 = Some \<lparr>won = 14, loss = - 16\<rparr>"
    unfolding mb using predicted_100_120 by (simp add: predicted_def)
  have "map_of (eloBlueTeam ?m) 2 = Some 100" by simp
  from b [rule_format, OF this] have c2: "blueAdjustments calc 2 = Some \<lparr>won = 16, loss = - 14\<rparr>"
    unfolding mr using predicted_120_100 by (simp add: predicted_def)
  show ?thesis
    using h(1,2) k run c1 c2 by blast
qed




section \<open>Properties of the ledger and of the resolution of a match\<close>

lemma updateElo_other: "q \<noteq> p \<Longrightarrow> updateElo gs p stats update q = gs q"
  by (simp add: updateElo_def Let_def)

lemma updateElo_settle:
  assumes "ledger_complete gs"
  shows "stat (updateElo gs p [(Elo, e), (Played, pl), (Wins, w)] True) p Elo = stat gs p Elo + e"
    and "stat (updateElo gs p [(Elo, e), (Played, pl), (Wins, w)] True) p Played
           = stat gs p Played + pl"
    and "stat (updateElo gs p [(Elo, e), (Played, pl), (Wins, w)] True) p Wins
           = stat gs p Wins + w"
    and "stat (updateElo gs p [(Elo, e), (Played, pl), (Wins, w)] True) p Hosted
           = stat gs p Hosted"
    and "ledger_complete (updateElo gs p [(Elo, e), (Played, pl), (Wins, w)] True)"
proof -
  let ?gs = "updateElo gs p [(Elo, e), (Played, pl), (Wins, w)] True"
  have four: "stat ?gs p Elo = stat gs p Elo + e \<and> stat ?gs p Played = stat gs p Played + pl
    \<and> stat ?gs p Wins = stat gs p Wins + w \<and> stat ?gs p Hosted = stat gs p Hosted"
  proof (cases "gs p")
    case None
    then show ?thesis
      by (simp add: updateElo_def stat_def stat_default_def default_stats_def apply_stat_def)
  next
    case (Some r)
    from assms Some have "r Elo \<noteq> None \<and> r Wins \<noteq> None \<and> r Played \<noteq> None"
      unfolding ledger_complete_def by blast
    then obtain a b c where "r Elo = Some a" "r Wins = Some b" "r Played = Some c"
      by auto
    with Some show ?thesis
      by (simp add: updateElo_def stat_def apply_stat_def)
  qed
  then show "stat ?gs p Elo = stat gs p Elo + e" "stat ?gs p Played = stat gs p Played + pl"
    "stat ?gs p Wins = stat gs p Wins + w" "stat ?gs p Hosted = stat gs p Hosted"
    by simp_all
  show "ledger_complete ?gs"
    unfolding ledger_complete_def
  proof (intro allI impI)
    fix q rq assume q: "?gs q = Some rq"
    show "rq Elo \<noteq> None \<and> rq Wins \<noteq> None \<and> rq Played \<noteq> None"
    proof (cases "q = p")
      case False
      with q assms show ?thesis by (simp add: updateElo_other ledger_complete_def)
    next
      case True
      show ?thesis
      proof (cases "gs p")
        case None
        with q True show ?thesis
          by (auto simp: updateElo_def default_stats_def apply_stat_def)
      next
        case (Some r)
        from assms Some have "r Elo \<noteq> None \<and> r Wins \<noteq> None \<and> r Played \<noteq> None"
          unfolding ledger_complete_def by blast
        then obtain a b c where "r Elo = Some a" "r Wins = Some b" "r Played = Some c"
          by auto
        with q True Some show ?thesis
          by (auto simp: updateElo_def apply_stat_def)
      qed
    qed
  qed
qed

lemma settle_side_result:
  assumes "distinct team" and "set team \<subseteq> dom adj" and "ledger_complete gs"
  shows "\<exists>gs'. settle_side adj change pl w team gs = (None, gs')
     \<and> ledger_complete gs'
     \<and> (\<forall>p. p \<notin> set team \<longrightarrow> gs' p = gs p)
     \<and> (\<forall>p a. p \<in> set team \<and> adj p = Some a \<longrightarrow>
           stat gs' p Elo = stat gs p Elo + change a
           \<and> stat gs' p Played = stat gs p Played + pl
           \<and> stat gs' p Wins = stat gs p Wins + w
           \<and> stat gs' p Hosted = stat gs p Hosted)"
  using assms
proof (induction team arbitrary: gs)
  case Nil
  then show ?case by simp
next
  case (Cons m rest)
  from Cons.prems(2) obtain a where a: "adj m = Some a" by auto
  let ?gs = "updateElo gs m [(Elo, change a), (Played, pl), (Wins, w)] True"
  have d: "distinct rest" "set rest \<subseteq> dom adj" "m \<notin> set rest"
    using Cons.prems by auto
  note u = updateElo_settle [OF Cons.prems(3), of m "change a" pl w]
  from Cons.IH [OF d(1,2) u(5)] obtain gs' where
    run: "settle_side adj change pl w rest ?gs = (None, gs')"
    and comp: "ledger_complete gs'"
    and other: "\<forall>p. p \<notin> set rest \<longrightarrow> gs' p = ?gs p"
    and mem: "\<forall>p a. p \<in> set rest \<and> adj p = Some a \<longrightarrow>
           stat gs' p Elo = stat ?gs p Elo + change a
           \<and> stat gs' p Played = stat ?gs p Played + pl
           \<and> stat gs' p Wins = stat ?gs p Wins + w
           \<and> stat gs' p Hosted = stat ?gs p Hosted"
    by blast
  have same: "stat ?gs p k = stat gs p k" if "p \<noteq> m" for p k
    using that by (simp add: stat_def updateElo_other)
  have gm: "stat gs' m k = stat ?gs m k" for k
    using other d(3) by (simp add: stat_def)
  have c1: "settle_side adj change pl w (m # rest) gs = (None, gs')"
    using a run by simp
  have c3: "\<forall>p. p \<notin> set (m # rest) \<longrightarrow> gs' p = gs p"
    using other by (simp add: updateElo_other)
  have c4: "\<forall>p b. p \<in> set (m # rest) \<and> adj p = Some b \<longrightarrow>
           stat gs' p Elo = stat gs p Elo + change b
           \<and> stat gs' p Played = stat gs p Played + pl
           \<and> stat gs' p Wins = stat gs p Wins + w
           \<and> stat gs' p Hosted = stat gs p Hosted"
  proof (intro allI impI)
    fix p b assume pb: "p \<in> set (m # rest) \<and> adj p = Some b"
    show "stat gs' p Elo = stat gs p Elo + change b
           \<and> stat gs' p Played = stat gs p Played + pl
           \<and> stat gs' p Wins = stat gs p Wins + w
           \<and> stat gs' p Hosted = stat gs p Hosted"
    proof (cases "p = m")
      case True
      with pb a have "b = a" by simp
      with True show ?thesis using gm u(1-4) by simp
    next
      case False
      with pb have "p \<in> set rest" by simp
      with mem pb False show ?thesis using same by simp
    qed
  qed
  show ?case
    by (rule exI [of _ gs'], intro conjI) (rule c1 comp c3 c4)+
qed

text \<open>
  What \<^verbatim>\<open>endMatch\<close> does to a running match with well-formed rosters, and that it keeps
  the ledger complete.
\<close>

lemma endMatch_result:
  assumes m: "matches st matchId = Some cMatch" and active: "who_won cMatch = None"
    and dist: "distinct (matchRedTeam cMatch @ matchBlueTeam cMatch)"
    and rk: "set (matchRedTeam cMatch) \<subseteq> dom (redAdjustments (preGameEloCalc cMatch))"
    and bk: "set (matchBlueTeam cMatch) \<subseteq> dom (blueAdjustments (preGameEloCalc cMatch))"
    and lc: "ledger_complete (guildStats st)"
  shows "\<exists>st'. endMatch st matchId winner = (Done, st')
    \<and> matches st' matchId = Some (cMatch\<lparr>who_won := Some winner\<rparr>)
    \<and> (\<forall>p a. p \<in> set (matchRedTeam cMatch)
              \<and> redAdjustments (preGameEloCalc cMatch) p = Some a \<longrightarrow>
         stat (guildStats st') p Elo
           = stat (guildStats st) p Elo + (if winner = 0 then won a else loss a)
         \<and> stat (guildStats st') p Played = stat (guildStats st) p Played + 1
         \<and> stat (guildStats st') p Wins
           = stat (guildStats st) p Wins + (if winner = 0 then 1 else 0))
    \<and> (\<forall>p a. p \<in> set (matchBlueTeam cMatch)
              \<and> blueAdjustments (preGameEloCalc cMatch) p = Some a \<longrightarrow>
         stat (guildStats st') p Elo
           = stat (guildStats st) p Elo + (if winner = 0 then loss a else won a)
         \<and> stat (guildStats st') p Played = stat (guildStats st) p Played + 1
         \<and> stat (guildStats st') p Wins
           = stat (guildStats st) p Wins + (if winner = 0 then 0 else 1))
    \<and> (\<forall>p. p \<notin> set (matchRedTeam cMatch) \<union> set (matchBlueTeam cMatch) \<longrightarrow>
           guildStats st' p = guildStats st p)
    \<and> (\<forall>w. endMatch st' matchId w = (Rejected AlreadyEndedOrCancelled, st'))
    \<and> ledger_complete (guildStats st')"
proof -
  let ?red = "matchRedTeam cMatch" and ?blue = "matchBlueTeam cMatch"
  let ?ra = "redAdjustments (preGameEloCalc cMatch)"
  let ?ba = "blueAdjustments (preGameEloCalc cMatch)"
  let ?gs = "guildStats st"
  define redRes :: "adjustment \<Rightarrow> int" where "redRes = (if winner = 0 then won else loss)"
  define blueRes :: "adjustment \<Rightarrow> int" where "blueRes = (if winner = 0 then loss else won)"
  define rWin :: int where "rWin = (if winner = 0 then 1 else 0)"
  define bWin :: int where "bWin = (if winner = 0 then 0 else 1)"
  define st1 where
    "st1 = st\<lparr>matches := (matches st)(matchId \<mapsto> cMatch\<lparr>who_won := Some winner\<rparr>)\<rparr>"
  have dr: "distinct ?red" and db: "distinct ?blue" and disj: "set ?red \<inter> set ?blue = {}"
    using dist by auto
  from settle_side_result [OF dr rk lc, of redRes 1 rWin] obtain gs1 where
    run1: "settle_side ?ra redRes 1 rWin ?red ?gs = (None, gs1)"
    and lc1: "ledger_complete gs1"
    and other1: "\<forall>p. p \<notin> set ?red \<longrightarrow> gs1 p = ?gs p"
    and mem1: "\<forall>p a. p \<in> set ?red \<and> ?ra p = Some a \<longrightarrow>
           stat gs1 p Elo = stat ?gs p Elo + redRes a
           \<and> stat gs1 p Played = stat ?gs p Played + 1
           \<and> stat gs1 p Wins = stat ?gs p Wins + rWin
           \<and> stat gs1 p Hosted = stat ?gs p Hosted"
    by blast
  from settle_side_result [OF db bk lc1, of blueRes 1 bWin] obtain gs2 where
    run2: "settle_side ?ba blueRes 1 bWin ?blue gs1 = (None, gs2)"
    and lc2: "ledger_complete gs2"
    and other2: "\<forall>p. p \<notin> set ?blue \<longrightarrow> gs2 p = gs1 p"
    and mem2: "\<forall>p a. p \<in> set ?blue \<and> ?ba p = Some a \<longrightarrow>
           stat gs2 p Elo = stat gs1 p Elo + blueRes a
           \<and> stat gs2 p Played = stat gs1 p Played + 1
           \<and> stat gs2 p Wins = stat gs1 p Wins + bWin
           \<and> stat gs2 p Hosted = stat gs1 p Hosted"
    by blast
  let ?st' = "st1\<lparr>guildStats := gs2\<rparr>"
  have run: "endMatch st matchId winner = (Done, ?st')"
    using m active run1 run2
    by (simp add: endMatch_def Let_def st1_def redRes_def blueRes_def rWin_def bWin_def)
  have c2: "matches ?st' matchId = Some (cMatch\<lparr>who_won := Some winner\<rparr>)"
    by (simp add: st1_def)
  have c3: "\<forall>p a. p \<in> set ?red \<and> ?ra p = Some a \<longrightarrow>
         stat (guildStats ?st') p Elo
           = stat ?gs p Elo + (if winner = 0 then won a else loss a)
         \<and> stat (guildStats ?st') p Played = stat ?gs p Played + 1
         \<and> stat (guildStats ?st') p Wins
           = stat ?gs p Wins + (if winner = 0 then 1 else 0)"
  proof (intro allI impI)
    fix p a assume pa: "p \<in> set ?red \<and> ?ra p = Some a"
    then have "p \<notin> set ?blue" using disj by auto
    with other2 have "stat gs2 p k = stat gs1 p k" for k by (simp add: stat_def)
    with mem1 pa show "stat (guildStats ?st') p Elo
           = stat ?gs p Elo + (if winner = 0 then won a else loss a)
         \<and> stat (guildStats ?st') p Played = stat ?gs p Played + 1
         \<and> stat (guildStats ?st') p Wins
           = stat ?gs p Wins + (if winner = 0 then 1 else 0)"
      by (simp add: redRes_def rWin_def)
  qed
  have c4: "\<forall>p a. p \<in> set ?blue \<and> ?ba p = Some a \<longrightarrow>
         stat (guildStats ?st') p Elo
           = stat ?gs p Elo + (if winner = 0 then loss a else won a)
         \<and> stat (guildStats ?st') p Played = stat ?gs p Played + 1
         \<and> stat (guildStats ?st') p Wins
           = stat ?gs p Wins + (if winner = 0 then 0 else 1)"
  proof (intro allI impI)
    fix p a assume pa: "p \<in> set ?blue \<and> ?ba p = Some a"
    then have "p \<notin> set ?red" using disj by auto
    with other1 have "stat gs1 p k = stat ?gs p k" for k by (simp add: stat_def)
    with mem2 pa show "stat (guildStats ?st') p Elo
           = stat ?gs p Elo + (if winner = 0 then loss a else won a)
         \<and> stat (guildStats ?st') p Played = stat ?gs p Played + 1
         \<and> stat (guildStats ?st') p Wins
           = stat ?gs p Wins + (if winner = 0 then 0 else 1)"
      by (simp add: blueRes_def bWin_def)
  qed
  have c5: "\<forall>p. p \<notin> set ?red \<union> set ?blue \<longrightarrow> guildStats ?st' p = ?gs p"
    using other1 other2 by simp
  have c6: "\<forall>w. endMatch ?st' matchId w = (Rejected AlreadyEndedOrCancelled, ?st')"
    by (simp add: endMatch_def st1_def)
  have c7: "ledger_complete (guildStats ?st')" using lc2 by simp
  show ?thesis
    by (rule exI [of _ ?st'], intro conjI) (rule run c2 c3 c4 c5 c6 c7)+
qed

lemma scenario_ledger_complete: "ledger_complete (guildStats scenario)"
  by (auto simp: ledger_complete_def scenario_def split: if_splits)

section \<open>Properties of swapping the winner\<close>

text \<open>
  What \<^verbatim>\<open>swapWinners\<close> does to a resolved match with well-formed rosters: the stored
  winner is flipped, every member's rating grows by twice the stored change of the
  member's new result, the wins count by 1 for the new winners and by - 1 for the new
  losers, and the played count stays.
\<close>

lemma swapWinners_result:
  assumes m: "matches st matchId = Some cMatch" and resolved: "who_won cMatch = Some w"
    and dist: "distinct (matchRedTeam cMatch @ matchBlueTeam cMatch)"
    and rk: "set (matchRedTeam cMatch) \<subseteq> dom (redAdjustments (preGameEloCalc cMatch))"
    and bk: "set (matchBlueTeam cMatch) \<subseteq> dom (blueAdjustments (preGameEloCalc cMatch))"
    and lc: "ledger_complete (guildStats st)"
  shows "\<exists>st'. swapWinners st matchId = (Done, st')
    \<and> matches st' matchId = Some (cMatch\<lparr>who_won := Some (if w = 1 then 0 else 1)\<rparr>)
    \<and> (\<forall>p a. p \<in> set (matchRedTeam cMatch)
              \<and> redAdjustments (preGameEloCalc cMatch) p = Some a \<longrightarrow>
         stat (guildStats st') p Elo
           = stat (guildStats st) p Elo + 2 * (if w = 1 then won a else loss a)
         \<and> stat (guildStats st') p Played = stat (guildStats st) p Played
         \<and> stat (guildStats st') p Wins
           = stat (guildStats st) p Wins + (if w = 1 then 1 else - 1))
    \<and> (\<forall>p a. p \<in> set (matchBlueTeam cMatch)
              \<and> blueAdjustments (preGameEloCalc cMatch) p = Some a \<longrightarrow>
         stat (guildStats st') p Elo
           = stat (guildStats st) p Elo + 2 * (if w = 1 then loss a else won a)
         \<and> stat (guildStats st') p Played = stat (guildStats st) p Played
         \<and> stat (guildStats st') p Wins
           = stat (guildStats st) p Wins + (if w = 1 then - 1 else 1))"
proof -
  let ?red = "matchRedTeam cMatch" and ?blue = "matchBlueTeam cMatch"
  let ?ra = "redAdjustments (preGameEloCalc cMatch)"
  let ?ba = "blueAdjustments (preGameEloCalc cMatch)"
  let ?gs = "guildStats st"
  define redRes :: "adjustment \<Rightarrow> int"
    where "redRes = (if w = 1 then (\<lambda>a. won a * 2) else (\<lambda>a. loss a * 2))"
  define blueRes :: "adjustment \<Rightarrow> int"
    where "blueRes = (if w = 1 then (\<lambda>a. loss a * 2) else (\<lambda>a. won a * 2))"
  define rWin :: int where "rWin = (if w = 1 then 1 else - 1)"
  define bWin :: int where "bWin = (if w = 1 then - 1 else 1)"
  define st1 where "st1 = st\<lparr>matches :=
      (matches st)(matchId \<mapsto> cMatch\<lparr>who_won := Some (if w = 1 then 0 else 1)\<rparr>)\<rparr>"
  have dr: "distinct ?red" and db: "distinct ?blue" and disj: "set ?red \<inter> set ?blue = {}"
    using dist by auto
  from settle_side_result [OF dr rk lc, of redRes 0 rWin] obtain gs1 where
    run1: "settle_side ?ra redRes 0 rWin ?red ?gs = (None, gs1)"
    and lc1: "ledger_complete gs1"
    and other1: "\<forall>p. p \<notin> set ?red \<longrightarrow> gs1 p = ?gs p"
    and mem1: "\<forall>p a. p \<in> set ?red \<and> ?ra p = Some a \<longrightarrow>
           stat gs1 p Elo = stat ?gs p Elo + redRes a
           \<and> stat gs1 p Played = stat ?gs p Played + 0
           \<and> stat gs1 p Wins = stat ?gs p Wins + rWin
           \<and> stat gs1 p Hosted = stat ?gs p Hosted"
    by blast
  from settle_side_result [OF db bk lc1, of blueRes 0 bWin] obtain gs2 where
    run2: "settle_side ?ba blueRes 0 bWin ?blue gs1 = (None, gs2)"
    and other2: "\<forall>p. p \<notin> set ?blue \<longrightarrow> gs2 p = gs1 p"
    and mem2: "\<forall>p a. p \<in> set ?blue \<and> ?ba p = Some a \<longrightarrow>
           stat gs2 p Elo = stat gs1 p Elo + blueRes a
           \<and> stat gs2 p Played = stat gs1 p Played + 0
           \<and> stat gs2 p Wins = stat gs1 p Wins + bWin
           \<and> stat gs2 p Hosted = stat gs1 p Hosted"
    by blast
  let ?st' = "st1\<lparr>guildStats := gs2\<rparr>"
  have run: "swapWinners st matchId = (Done, ?st')"
  proof (cases "w = 1")
    case True
    with m resolved run1 run2 show ?thesis
      by (simp add: swapWinners_def Let_def st1_def redRes_def blueRes_def rWin_def bWin_def)
  next
    case False
    with m resolved run1 run2 show ?thesis
      by (simp add: swapWinners_def Let_def st1_def redRes_def blueRes_def rWin_def bWin_def)
  qed
  have c2: "matches ?st' matchId = Some (cMatch\<lparr>who_won := Some (if w = 1 then 0 else 1)\<rparr>)"
    by (simp add: st1_def)
  have c3: "\<forall>p a. p \<in> set ?red \<and> ?ra p = Some a \<longrightarrow>
         stat (guildStats ?st') p Elo
           = stat ?gs p Elo + 2 * (if w = 1 then won a else loss a)
         \<and> stat (guildStats ?st') p Played = stat ?gs p Played
         \<and> stat (guildStats ?st') p Wins
           = stat ?gs p Wins + (if w = 1 then 1 else - 1)"
  proof (intro allI impI)
    fix p a assume pa: "p \<in> set ?red \<and> ?ra p = Some a"
    then have "p \<notin> set ?blue" using disj by auto
    with other2 have "stat gs2 p k = stat gs1 p k" for k by (simp add: stat_def)
    with mem1 pa show "stat (guildStats ?st') p Elo
           = stat ?gs p Elo + 2 * (if w = 1 then won a else loss a)
         \<and> stat (guildStats ?st') p Played = stat ?gs p Played
         \<and> stat (guildStats ?st') p Wins
           = stat ?gs p Wins + (if w = 1 then 1 else - 1)"
      by (simp add: redRes_def rWin_def)
  qed
  have c4: "\<forall>p a. p \<in> set ?blue \<and> ?ba p = Some a \<longrightarrow>
         stat (guildStats ?st') p Elo
           = stat ?gs p Elo + 2 * (if w = 1 then loss a else won a)
         \<and> stat (guildStats ?st') p Played = stat ?gs p Played
         \<and> stat (guildStats ?st') p Wins
           = stat ?gs p Wins + (if w = 1 then - 1 else 1)"
  proof (intro allI impI)
    fix p a assume pa: "p \<in> set ?blue \<and> ?ba p = Some a"
    then have "p \<notin> set ?red" using disj by auto
    with other1 have "stat gs1 p k = stat ?gs p k" for k by (simp add: stat_def)
    with mem2 pa show "stat (guildStats ?st') p Elo
           = stat ?gs p Elo + 2 * (if w = 1 then loss a else won a)
         \<and> stat (guildStats ?st') p Played = stat ?gs p Played
         \<and> stat (guildStats ?st') p Wins
           = stat ?gs p Wins + (if w = 1 then - 1 else 1)"
      by (simp add: blueRes_def bWin_def)
  qed
  show ?thesis
    by (rule exI [of _ ?st'], intro conjI) (rule run c2 c3 c4)+
qed

text \<open>
  Resolving with winner \<open>w\<close> and swapping, against resolving with the other winner at
  once: the wins and the played counts agree, and every rating is off by the sum of the
  member's two stored changes, which is zero only for a member whose changes are
  opposite numbers.
\<close>

lemma resolve_then_swap_offset:
  assumes m: "matches st matchId = Some cMatch" and active: "who_won cMatch = None"
    and dist: "distinct (matchRedTeam cMatch @ matchBlueTeam cMatch)"
    and rk: "set (matchRedTeam cMatch) \<subseteq> dom (redAdjustments (preGameEloCalc cMatch))"
    and bk: "set (matchBlueTeam cMatch) \<subseteq> dom (blueAdjustments (preGameEloCalc cMatch))"
    and lc: "ledger_complete (guildStats st)"
    and w: "w = 0 \<or> w = 1"
  shows "\<exists>s1 s2 s3. endMatch st matchId w = (Done, s1) \<and> swapWinners s1 matchId = (Done, s2)
    \<and> endMatch st matchId (1 - w) = (Done, s3)
    \<and> map_option who_won (matches s2 matchId) = map_option who_won (matches s3 matchId)
    \<and> (\<forall>p a. p \<in> set (matchRedTeam cMatch)
                \<and> redAdjustments (preGameEloCalc cMatch) p = Some a
              \<or> p \<in> set (matchBlueTeam cMatch)
                \<and> blueAdjustments (preGameEloCalc cMatch) p = Some a \<longrightarrow>
          stat (guildStats s2) p Elo = stat (guildStats s3) p Elo + (won a + loss a)
          \<and> stat (guildStats s2) p Wins = stat (guildStats s3) p Wins
          \<and> stat (guildStats s2) p Played = stat (guildStats s3) p Played)"
proof -
  let ?red = "matchRedTeam cMatch" and ?blue = "matchBlueTeam cMatch"
  let ?ra = "redAdjustments (preGameEloCalc cMatch)"
  let ?ba = "blueAdjustments (preGameEloCalc cMatch)"
  let ?m1 = "cMatch\<lparr>who_won := Some w\<rparr>"
  from endMatch_result [OF m active dist rk bk lc, of w] obtain s1 where
    run1: "endMatch st matchId w = (Done, s1)"
    and m1: "matches s1 matchId = Some ?m1"
    and red1: "\<forall>p a. p \<in> set ?red \<and> ?ra p = Some a \<longrightarrow>
         stat (guildStats s1) p Elo
           = stat (guildStats st) p Elo + (if w = 0 then won a else loss a)
         \<and> stat (guildStats s1) p Played = stat (guildStats st) p Played + 1
         \<and> stat (guildStats s1) p Wins
           = stat (guildStats st) p Wins + (if w = 0 then 1 else 0)"
    and blue1: "\<forall>p a. p \<in> set ?blue \<and> ?ba p = Some a \<longrightarrow>
         stat (guildStats s1) p Elo
           = stat (guildStats st) p Elo + (if w = 0 then loss a else won a)
         \<and> stat (guildStats s1) p Played = stat (guildStats st) p Played + 1
         \<and> stat (guildStats s1) p Wins
           = stat (guildStats st) p Wins + (if w = 0 then 0 else 1)"
    and lc1: "ledger_complete (guildStats s1)"
    by (elim exE conjE)
  from endMatch_result [OF m active dist rk bk lc, of "1 - w"] obtain s3 where
    run3: "endMatch st matchId (1 - w) = (Done, s3)"
    and m3: "matches s3 matchId = Some (cMatch\<lparr>who_won := Some (1 - w)\<rparr>)"
    and red3: "\<forall>p a. p \<in> set ?red \<and> ?ra p = Some a \<longrightarrow>
         stat (guildStats s3) p Elo
           = stat (guildStats st) p Elo + (if 1 - w = 0 then won a else loss a)
         \<and> stat (guildStats s3) p Played = stat (guildStats st) p Played + 1
         \<and> stat (guildStats s3) p Wins
           = stat (guildStats st) p Wins + (if 1 - w = 0 then 1 else 0)"
    and blue3: "\<forall>p a. p \<in> set ?blue \<and> ?ba p = Some a \<longrightarrow>
         stat (guildStats s3) p Elo
           = stat (guildStats st) p Elo + (if 1 - w = 0 then loss a else won a)
         \<and> stat (guildStats s3) p Played = stat (guildStats st) p Played + 1
         \<and> stat (guildStats s3) p Wins
           = stat (guildStats st) p Wins + (if 1 - w = 0 then 0 else 1)"
    by (elim exE conjE)
  have g2: "who_won ?m1 = Some w"
    and g3: "distinct (matchRedTeam ?m1 @ matchBlueTeam ?m1)"
    and g4: "set (matchRedTeam ?m1) \<subseteq> dom (redAdjustments (preGameEloCalc ?m1))"
    and g5: "set (matchBlueTeam ?m1) \<subseteq> dom (blueAdjustments (preGameEloCalc ?m1))"
    using dist rk bk by simp_all
  from swapWinners_result [OF m1 g2 g3 g4 g5 lc1] obtain s2 where
    run2: "swapWinners s1 matchId = (Done, s2)"
    and m2: "matches s2 matchId = Some (?m1\<lparr>who_won := Some (if w = 1 then 0 else 1)\<rparr>)"
    and red2: "\<forall>p a. p \<in> set (matchRedTeam ?m1)
              \<and> redAdjustments (preGameEloCalc ?m1) p = Some a \<longrightarrow>
         stat (guildStats s2) p Elo
           = stat (guildStats s1) p Elo + 2 * (if w = 1 then won a else loss a)
         \<and> stat (guildStats s2) p Played = stat (guildStats s1) p Played
         \<and> stat (guildStats s2) p Wins
           = stat (guildStats s1) p Wins + (if w = 1 then 1 else - 1)"
    and blue2: "\<forall>p a. p \<in> set (matchBlueTeam ?m1)
              \<and> blueAdjustments (preGameEloCalc ?m1) p = Some a \<longrightarrow>
         stat (guildStats s2) p Elo
           = stat (guildStats s1) p Elo + 2 * (if w = 1 then loss a else won a)
         \<and> stat (guildStats s2) p Played = stat (guildStats s1) p Played
         \<and> stat (guildStats s2) p Wins
           = stat (guildStats s1) p Wins + (if w = 1 then - 1 else 1)"
    by (elim exE conjE)
  have c4: "map_option who_won (matches s2 matchId) = map_option who_won (matches s3 matchId)"
    using m2 m3 w by auto
  have c5: "\<forall>p a. p \<in> set ?red \<and> ?ra p = Some a \<or> p \<in> set ?blue \<and> ?ba p = Some a \<longrightarrow>
          stat (guildStats s2) p Elo = stat (guildStats s3) p Elo + (won a + loss a)
          \<and> stat (guildStats s2) p Wins = stat (guildStats s3) p Wins
          \<and> stat (guildStats s2) p Played = stat (guildStats s3) p Played"
  proof (intro allI impI)
    fix p a
    assume "p \<in> set ?red \<and> ?ra p = Some a \<or> p \<in> set ?blue \<and> ?ba p = Some a"
    then show "stat (guildStats s2) p Elo = stat (guildStats s3) p Elo + (won a + loss a)
          \<and> stat (guildStats s2) p Wins = stat (guildStats s3) p Wins
          \<and> stat (guildStats s2) p Played = stat (guildStats s3) p Played"
    proof
      assume pa: "p \<in> set ?red \<and> ?ra p = Some a"
      then have pa': "p \<in> set (matchRedTeam ?m1)
          \<and> redAdjustments (preGameEloCalc ?m1) p = Some a" by simp
      from red1 [rule_format, OF pa] red2 [rule_format, OF pa'] red3 [rule_format, OF pa] w
      show ?thesis by auto
    next
      assume pa: "p \<in> set ?blue \<and> ?ba p = Some a"
      then have pa': "p \<in> set (matchBlueTeam ?m1)
          \<and> blueAdjustments (preGameEloCalc ?m1) p = Some a" by simp
      from blue1 [rule_format, OF pa] blue2 [rule_format, OF pa'] blue3 [rule_format, OF pa] w
      show ?thesis by auto
    qed
  qed
  show ?thesis
    by (rule exI [of _ s1], rule exI [of _ s2], rule exI [of _ s3], intro conjI)
      (rule run1 run2 run3 c4 c5)+
qed

text \<open>
  Claim C3 says that resolving and then swapping gives every member the rating that the
  opposite resolution gives. In the scenario, member 1 (rating 120, changes 14 and - 16)
  is on the red side. Red wins and the winner is swapped: 120 + 14 + 2 * (- 16) = 102.
  Blue wins at once: 120 - 16 = 104. Member 4 ends at 68 instead of 66. The members 2
  and 3, whose two changes are opposite numbers, end at 115 either way, and the winner,
  the wins and the played counts agree.
\<close>

theorem swapWinners_drift:
  "fst (endMatch scenario ''aB3xYz'' 0) = Done
   \<and> fst (swapWinners (snd (endMatch scenario ''aB3xYz'' 0)) ''aB3xYz'') = Done
   \<and> fst (endMatch scenario ''aB3xYz'' 1) = Done
   \<and> map_option who_won
        (matches (snd (swapWinners (snd (endMatch scenario ''aB3xYz'' 0)) ''aB3xYz'')) ''aB3xYz'')
       = Some (Some 1)
   \<and> stat (guildStats (snd (swapWinners (snd (endMatch scenario ''aB3xYz'' 0)) ''aB3xYz''))) 1 Elo
       = 102
   \<and> stat (guildStats (snd (endMatch scenario ''aB3xYz'' 1))) 1 Elo = 104
   \<and> stat (guildStats (snd (swapWinners (snd (endMatch scenario ''aB3xYz'' 0)) ''aB3xYz''))) 4 Elo
       = 68
   \<and> stat (guildStats (snd (endMatch scenario ''aB3xYz'' 1))) 4 Elo = 66
   \<and> stat (guildStats (snd (swapWinners (snd (endMatch scenario ''aB3xYz'' 0)) ''aB3xYz''))) 2 Elo
       = 115
   \<and> stat (guildStats (snd (endMatch scenario ''aB3xYz'' 1))) 2 Elo = 115
   \<and> stat (guildStats (snd (swapWinners (snd (endMatch scenario ''aB3xYz'' 0)) ''aB3xYz''))) 1 Wins
       = stat (guildStats (snd (endMatch scenario ''aB3xYz'' 1))) 1 Wins
   \<and> stat (guildStats (snd (swapWinners (snd (endMatch scenario ''aB3xYz'' 0)) ''aB3xYz''))) 1 Played
       = stat (guildStats (snd (endMatch scenario ''aB3xYz'' 1))) 1 Played"
proof -
  let ?id = "''aB3xYz''"
  let ?m0 = "scenario_match\<lparr>who_won := Some 0\<rparr>"
  have h1: "matches scenario ?id = Some scenario_match"
    by (simp add: scenario_def)
  have h2: "who_won scenario_match = None"
    and h3: "distinct (matchRedTeam scenario_match @ matchBlueTeam scenario_match)"
    and h4: "set (matchRedTeam scenario_match)
               \<subseteq> dom (redAdjustments (preGameEloCalc scenario_match))"
    and h5: "set (matchBlueTeam scenario_match)
               \<subseteq> dom (blueAdjustments (preGameEloCalc scenario_match))"
    by (simp_all add: scenario_match_def)
  have r1: "1 \<in> set (matchRedTeam scenario_match)
      \<and> redAdjustments (preGameEloCalc scenario_match) 1 = Some \<lparr>won = 14, loss = - 16\<rparr>"
    and r4: "4 \<in> set (matchRedTeam scenario_match)
      \<and> redAdjustments (preGameEloCalc scenario_match) 4 = Some \<lparr>won = 16, loss = - 14\<rparr>"
    and b2: "2 \<in> set (matchBlueTeam scenario_match)
      \<and> blueAdjustments (preGameEloCalc scenario_match) 2 = Some \<lparr>won = 15, loss = - 15\<rparr>"
    by (simp_all add: scenario_match_def)
  have before: "stat (guildStats scenario) 1 Elo = 120" "stat (guildStats scenario) 4 Elo = 80"
    "stat (guildStats scenario) 2 Elo = 100"
    "stat (guildStats scenario) 1 Played = 0" "stat (guildStats scenario) 1 Wins = 0"
    by (simp_all add: scenario_def stat_def stat_default_def)
  note lc = scenario_ledger_complete
  from endMatch_result [OF h1 h2 h3 h4 h5 lc, of 0] obtain s1 where
    run1: "endMatch scenario ?id 0 = (Done, s1)"
    and m1: "matches s1 ?id = Some ?m0"
    and red1: "\<forall>p a. p \<in> set (matchRedTeam scenario_match)
              \<and> redAdjustments (preGameEloCalc scenario_match) p = Some a \<longrightarrow>
         stat (guildStats s1) p Elo
           = stat (guildStats scenario) p Elo + (if (0::int) = 0 then won a else loss a)
         \<and> stat (guildStats s1) p Played = stat (guildStats scenario) p Played + 1
         \<and> stat (guildStats s1) p Wins
           = stat (guildStats scenario) p Wins + (if (0::int) = 0 then 1 else 0)"
    and blue1: "\<forall>p a. p \<in> set (matchBlueTeam scenario_match)
              \<and> blueAdjustments (preGameEloCalc scenario_match) p = Some a \<longrightarrow>
         stat (guildStats s1) p Elo
           = stat (guildStats scenario) p Elo + (if (0::int) = 0 then loss a else won a)
         \<and> stat (guildStats s1) p Played = stat (guildStats scenario) p Played + 1
         \<and> stat (guildStats s1) p Wins
           = stat (guildStats scenario) p Wins + (if (0::int) = 0 then 0 else 1)"
    and lc1: "ledger_complete (guildStats s1)"
    by (elim exE conjE)
  from endMatch_result [OF h1 h2 h3 h4 h5 lc, of 1] obtain s3 where
    run3: "endMatch scenario ?id 1 = (Done, s3)"
    and red3: "\<forall>p a. p \<in> set (matchRedTeam scenario_match)
              \<and> redAdjustments (preGameEloCalc scenario_match) p = Some a \<longrightarrow>
         stat (guildStats s3) p Elo
           = stat (guildStats scenario) p Elo + (if (1::int) = 0 then won a else loss a)
         \<and> stat (guildStats s3) p Played = stat (guildStats scenario) p Played + 1
         \<and> stat (guildStats s3) p Wins
           = stat (guildStats scenario) p Wins + (if (1::int) = 0 then 1 else 0)"
    and blue3: "\<forall>p a. p \<in> set (matchBlueTeam scenario_match)
              \<and> blueAdjustments (preGameEloCalc scenario_match) p = Some a \<longrightarrow>
         stat (guildStats s3) p Elo
           = stat (guildStats scenario) p Elo + (if (1::int) = 0 then loss a else won a)
         \<and> stat (guildStats s3) p Played = stat (guildStats scenario) p Played + 1
         \<and> stat (guildStats s3) p Wins
           = stat (guildStats scenario) p Wins + (if (1::int) = 0 then 0 else 1)"
    by (elim exE conjE)
  have g2: "who_won ?m0 = Some 0"
    and g3: "distinct (matchRedTeam ?m0 @ matchBlueTeam ?m0)"
    and g4: "set (matchRedTeam ?m0) \<subseteq> dom (redAdjustments (preGameEloCalc ?m0))"
    and g5: "set (matchBlueTeam ?m0) \<subseteq> dom (blueAdjustments (preGameEloCalc ?m0))"
    by (simp_all add: scenario_match_def)
  from swapWinners_result [OF m1 g2 g3 g4 g5 lc1] obtain s2 where
    run2: "swapWinners s1 ?id = (Done, s2)"
    and m2: "matches s2 ?id = Some (?m0\<lparr>who_won := Some (if (0::int) = 1 then 0 else 1)\<rparr>)"
    and red2: "\<forall>p a. p \<in> set (matchRedTeam ?m0)
              \<and> redAdjustments (preGameEloCalc ?m0) p = Some a \<longrightarrow>
         stat (guildStats s2) p Elo
           = stat (guildStats s1) p Elo + 2 * (if (0::int) = 1 then won a else loss a)
         \<and> stat (guildStats s2) p Played = stat (guildStats s1) p Played
         \<and> stat (guildStats s2) p Wins
           = stat (guildStats s1) p Wins + (if (0::int) = 1 then 1 else - 1)"
    and blue2: "\<forall>p a. p \<in> set (matchBlueTeam ?m0)
              \<and> blueAdjustments (preGameEloCalc ?m0) p = Some a \<longrightarrow>
         stat (guildStats s2) p Elo
           = stat (guildStats s1) p Elo + 2 * (if (0::int) = 1 then loss a else won a)
         \<and> stat (guildStats s2) p Played = stat (guildStats s1) p Played
         \<and> stat (guildStats s2) p Wins
           = stat (guildStats s1) p Wins + (if (0::int) = 1 then - 1 else 1)"
    by (elim exE conjE)
  have r1': "1 \<in> set (matchRedTeam ?m0)
      \<and> redAdjustments (preGameEloCalc ?m0) 1 = Some \<lparr>won = 14, loss = - 16\<rparr>"
    and r4': "4 \<in> set (matchRedTeam ?m0)
      \<and> redAdjustments (preGameEloCalc ?m0) 4 = Some \<lparr>won = 16, loss = - 14\<rparr>"
    and b2': "2 \<in> set (matchBlueTeam ?m0)
      \<and> blueAdjustments (preGameEloCalc ?m0) 2 = Some \<lparr>won = 15, loss = - 15\<rparr>"
    by (simp_all add: scenario_match_def)
  have v1: "stat (guildStats s2) 1 Elo = 102" "stat (guildStats s2) 1 Wins = 0"
    "stat (guildStats s2) 1 Played = 1"
    using red1 [rule_format, OF r1] red2 [rule_format, OF r1'] before by simp_all
  have v4: "stat (guildStats s2) 4 Elo = 68"
    using red1 [rule_format, OF r4] red2 [rule_format, OF r4'] before by simp
  have v2: "stat (guildStats s2) 2 Elo = 115"
    using blue1 [rule_format, OF b2] blue2 [rule_format, OF b2'] before by simp
  have d1: "stat (guildStats s3) 1 Elo = 104" "stat (guildStats s3) 1 Wins = 0"
    "stat (guildStats s3) 1 Played = 1"
    using red3 [rule_format, OF r1] before by simp_all
  have d4: "stat (guildStats s3) 4 Elo = 66"
    using red3 [rule_format, OF r4] before by simp
  have d2: "stat (guildStats s3) 2 Elo = 115"
    using blue3 [rule_format, OF b2] before by simp
  have w2: "map_option who_won (matches s2 ?id) = Some (Some 1)"
    using m2 by simp
  show ?thesis
    unfolding run1 run3 snd_conv fst_conv run2
    using v1 v4 v2 d1 d4 d2 w2 by simp
qed

section \<open>Properties of the guards and of the replacement of a player\<close>

lemma roster_ratings_after_replace:
  "roster_ratings roster_ledger ([1, 2] @ [3, 5]) = [(1, 120), (2, 150), (3, 100), (5, 80)]"
  by (simp add: roster_ratings_def first_occurrences_def live_rating_def roster_ledger_def)

lemma getTeams_after_replace:
  "getTeams [(1, 120), (2, 150), (3, 100), (5, 80)]
     = Some \<lparr>redTeam = [1, 3], blueTeam = [2, 5], eloRedTeam = [(1, 120), (3, 100)],
             eloBlueTeam = [(2, 150), (5, 80)], eloDifference = 10\<rparr>"
  by code_simp

lemma replace_blue_member_run:
  assumes "who_won m0 = w" "matchRedTeam m0 = [1, 2]" "matchBlueTeam m0 = [3, 4]"
    "teamsShared m0 = False"
  shows "\<exists>calc. replace \<lparr>matches = [''Qw7eRt'' \<mapsto> m0], guildStats = roster_ledger\<rparr>
            ''Qw7eRt'' (Some 4) (Some 5) (\<lambda>m. True) True
     = (Done, \<lparr>matches = [''Qw7eRt'' \<mapsto>
                  m0\<lparr>matchRedTeam := [1, 2], matchBlueTeam := [3, 5], teamsShared := False,
                       preGameEloCalc := calc\<rparr>],
               guildStats = roster_ledger\<rparr>)
     \<and> dom (redAdjustments calc) = {1, 3} \<and> dom (blueAdjustments calc) = {2, 5}"
proof -
  let ?T = "\<lparr>redTeam = [1, 3], blueTeam = [2, 5], eloRedTeam = [(1, 120), (3, 100)],
             eloBlueTeam = [(2, 150), (5, 80)], eloDifference = 10\<rparr>"
  have "\<exists>calc. calculatePreGameElo ?T 30 = Inr calc
     \<and> dom (redAdjustments calc) = set (redTeam ?T)
     \<and> dom (blueAdjustments calc) = set (blueTeam ?T)"
    by (rule calculatePreGameElo_dom) (simp_all add: ratings_of_def)
  then obtain calc where calc: "calculatePreGameElo ?T 30 = Inr calc"
    "dom (redAdjustments calc) = {1, 3}" "dom (blueAdjustments calc) = {2, 5}"
    by auto
  have "replace \<lparr>matches = [''Qw7eRt'' \<mapsto> m0], guildStats = roster_ledger\<rparr>
            ''Qw7eRt'' (Some 4) (Some 5) (\<lambda>m. True) True
     = (Done, \<lparr>matches = [''Qw7eRt'' \<mapsto>
                  m0\<lparr>matchRedTeam := [1, 2], matchBlueTeam := [3, 5], teamsShared := False,
                       preGameEloCalc := calc\<rparr>],
               guildStats = roster_ledger\<rparr>)"
    using assms roster_ratings_after_replace
    by (simp add: replace_def get_is_won_def Let_def getTeams_after_replace calc(1))
  with calc(2,3) show ?thesis by blast
qed

text \<open>
  The guards of the four operations: an id that is not in the registry is refused by
  all of them, a resolved match is refused by \<^verbatim>\<open>endMatch\<close> and \<^verbatim>\<open>cancelMatch\<close> and a
  running one by \<^verbatim>\<open>swapWinners\<close>, each time with the state as it was.
\<close>

lemma guards_unknown_id:
  assumes "matches st matchId = None"
  shows "endMatch st matchId w = (Rejected AlreadyEndedOrCancelled, st)"
    and "cancelMatch st matchId = (Rejected AlreadyEndedOrCancelled, st)"
    and "swapWinners st matchId = (Rejected MatchNotFound, st)"
    and "replace st matchId a b get_member ok = (Rejected MatchHasEnded, st)"
  using assms by (simp_all add: endMatch_def cancelMatch_def swapWinners_def replace_def)

lemma guards_resolved:
  assumes "matches st matchId = Some cMatch" and "who_won cMatch = Some x"
  shows "endMatch st matchId w = (Rejected AlreadyEndedOrCancelled, st)"
    and "cancelMatch st matchId = (Rejected AlreadyEndedOrCancelled, st)"
  using assms by (simp_all add: endMatch_def cancelMatch_def)

lemma guards_running:
  assumes "matches st matchId = Some cMatch" and "who_won cMatch = None"
  shows "swapWinners st matchId = (Rejected MatchStillActive, st)"
  using assms by (simp add: swapWinners_def)

text \<open>
  Claim C4 asks that after \<^verbatim>\<open>ReplacePlayerView.replace\<close> the stored prediction has every
  roster member under the member's own side. In the second match member 4 (blue) is
  replaced by member 5. The rosters become 1, 2 against 3, 5; the prediction is computed
  from \<^verbatim>\<open>getTeams\<close> on the ratings 120, 150, 100, 80, which balances anew into 1, 3
  against 2, 5. So member 2 plays for red and is predicted under blue, member 3 the other
  way round, and resolving the match raises \<^verbatim>\<open>KeyError\<close> at member 2.
\<close>

theorem replace_prediction_off_side:
  "fst (replace roster_scenario ''Qw7eRt'' (Some 4) (Some 5) (\<lambda>m. True) True) = Done
   \<and> map_option matchRedTeam
        (matches (snd (replace roster_scenario ''Qw7eRt'' (Some 4) (Some 5) (\<lambda>m. True) True))
           ''Qw7eRt'') = Some [1, 2]
   \<and> map_option matchBlueTeam
        (matches (snd (replace roster_scenario ''Qw7eRt'' (Some 4) (Some 5) (\<lambda>m. True) True))
           ''Qw7eRt'') = Some [3, 5]
   \<and> map_option (\<lambda>m. dom (redAdjustments (preGameEloCalc m)))
        (matches (snd (replace roster_scenario ''Qw7eRt'' (Some 4) (Some 5) (\<lambda>m. True) True))
           ''Qw7eRt'') = Some {1, 3}
   \<and> map_option (\<lambda>m. dom (blueAdjustments (preGameEloCalc m)))
        (matches (snd (replace roster_scenario ''Qw7eRt'' (Some 4) (Some 5) (\<lambda>m. True) True))
           ''Qw7eRt'') = Some {2, 5}
   \<and> fst (endMatch
             (snd (replace roster_scenario ''Qw7eRt'' (Some 4) (Some 5) (\<lambda>m. True) True))
             ''Qw7eRt'' 0) = Raised KeyError"
proof -
  have h: "who_won roster_match = None" "matchRedTeam roster_match = [1, 2]"
    "matchBlueTeam roster_match = [3, 4]" "teamsShared roster_match = False"
    by (simp_all add: roster_match_def)
  from replace_blue_member_run [OF h] obtain calc where
    run: "replace roster_scenario ''Qw7eRt'' (Some 4) (Some 5) (\<lambda>m. True) True
     = (Done, \<lparr>matches = [''Qw7eRt'' \<mapsto>
                  roster_match\<lparr>matchRedTeam := [1, 2], matchBlueTeam := [3, 5],
                       teamsShared := False, preGameEloCalc := calc\<rparr>],
               guildStats = roster_ledger\<rparr>)"
    and dr: "dom (redAdjustments calc) = {1, 3}"
    and db: "dom (blueAdjustments calc) = {2, 5}"
    unfolding roster_scenario_def by blast
  from dr obtain a where a: "redAdjustments calc 1 = Some a" by auto
  have none: "redAdjustments calc 2 = None"
  proof (rule ccontr)
    assume "redAdjustments calc 2 \<noteq> None"
    then have "2 \<in> dom (redAdjustments calc)" by (simp add: domIff)
    with dr show False by simp
  qed
  have "fst (endMatch \<lparr>matches = [''Qw7eRt'' \<mapsto>
                  roster_match\<lparr>matchRedTeam := [1, 2], matchBlueTeam := [3, 5],
                       teamsShared := False, preGameEloCalc := calc\<rparr>],
               guildStats = roster_ledger\<rparr> ''Qw7eRt'' 0) = Raised KeyError"
    using h a none by (simp add: endMatch_def Let_def)
  then show ?thesis
    unfolding run snd_conv fst_conv using dr db by simp
qed

theorem replace_prediction_off_side_witness:
  "fst (replace roster_scenario ''Qw7eRt'' (Some 4) (Some 5) (\<lambda>m. True) True) = Done
   \<and> fst (endMatch
             (snd (replace roster_scenario ''Qw7eRt'' (Some 4) (Some 5) (\<lambda>m. True) True))
             ''Qw7eRt'' 0) = Raised KeyError"
  using replace_prediction_off_side by blast

text \<open>
  Claim C5 asks that \<^verbatim>\<open>ReplacePlayerView.replace\<close> on a match that is no longer running
  is refused before any change. The guard of \<^verbatim>\<open>replace\<close> reads the key \<^verbatim>\<open>"is won"\<close>,
  which no entry has, so it never fires: on the resolved second match the replacement of
  member 4 by member 5 completes, the blue roster becomes 3, 5 and the prediction is
  overwritten, with red still stored as the winner.
\<close>

theorem replace_on_resolved_match:
  "map_option who_won (matches resolved_scenario ''Qw7eRt'') = Some (Some 0)
   \<and> map_option matchBlueTeam (matches resolved_scenario ''Qw7eRt'') = Some [3, 4]
   \<and> fst (replace resolved_scenario ''Qw7eRt'' (Some 4) (Some 5) (\<lambda>m. True) True) = Done
   \<and> map_option matchBlueTeam
        (matches (snd (replace resolved_scenario ''Qw7eRt'' (Some 4) (Some 5) (\<lambda>m. True) True))
           ''Qw7eRt'') = Some [3, 5]
   \<and> map_option who_won
        (matches (snd (replace resolved_scenario ''Qw7eRt'' (Some 4) (Some 5) (\<lambda>m. True) True))
           ''Qw7eRt'') = Some (Some 0)
   \<and> map_option (\<lambda>m. dom (redAdjustments (preGameEloCalc m)))
        (matches (snd (replace resolved_scenario ''Qw7eRt'' (Some 4) (Some 5) (\<lambda>m. True) True))
           ''Qw7eRt'') = Some {1, 3}"
proof -
  let ?m0 = "roster_match\<lparr>who_won := Some 0\<rparr>"
  have h: "who_won ?m0 = Some 0" "matchRedTeam ?m0 = [1, 2]"
    "matchBlueTeam ?m0 = [3, 4]" "teamsShared ?m0 = False"
    by (simp_all add: roster_match_def)
  from replace_blue_member_run [OF h] obtain calc where
    run: "replace resolved_scenario ''Qw7eRt'' (Some 4) (Some 5) (\<lambda>m. True) True
     = (Done, \<lparr>matches = [''Qw7eRt'' \<mapsto>
                  ?m0\<lparr>matchRedTeam := [1, 2], matchBlueTeam := [3, 5],
                       teamsShared := False, preGameEloCalc := calc\<rparr>],
               guildStats = roster_ledger\<rparr>)"
    and dr: "dom (redAdjustments calc) = {1, 3}"
    unfolding resolved_scenario_def by blast
  have before: "map_option who_won (matches resolved_scenario ''Qw7eRt'') = Some (Some 0)"
    "map_option matchBlueTeam (matches resolved_scenario ''Qw7eRt'') = Some [3, 4]"
    by (simp_all add: resolved_scenario_def roster_match_def)
  show ?thesis
    unfolding run snd_conv fst_conv using before dr by simp
qed

theorem replace_on_resolved_match_witness:
  "fst (replace resolved_scenario ''Qw7eRt'' (Some 4) (Some 5) (\<lambda>m. True) True) = Done
   \<and> map_option matchBlueTeam
        (matches (snd (replace resolved_scenario ''Qw7eRt'' (Some 4) (Some 5) (\<lambda>m. True) True))
           ''Qw7eRt'') = Some [3, 5]"
  using replace_on_resolved_match by blast

text \<open>
  When the outgoing member is on the red side, the second test
  \<^verbatim>\<open>memberToReplace in match["redTeam"]\<close> is made after the member has been removed from
  that very list, so the changed red list is stored under \<^verbatim>\<open>"blueTeam"\<close>: replacing
  member 2 by member 5 leaves 1, 5 as both rosters, and the prediction covers these two
  members only.
\<close>

lemma replace_red_member_overwrites_blue:
  "\<exists>calc. replace roster_scenario ''Qw7eRt'' (Some 2) (Some 5) (\<lambda>m. True) True
     = (Done, \<lparr>matches = [''Qw7eRt'' \<mapsto>
                  roster_match\<lparr>matchRedTeam := [1, 5], matchBlueTeam := [1, 5],
                       teamsShared := True, preGameEloCalc := calc\<rparr>],
               guildStats = roster_ledger\<rparr>)
     \<and> dom (redAdjustments calc) = {1} \<and> dom (blueAdjustments calc) = {5}"
proof -
  let ?T = "\<lparr>redTeam = [1], blueTeam = [5], eloRedTeam = [(1, 120)],
             eloBlueTeam = [(5, 80)], eloDifference = 40\<rparr>"
  have rr: "roster_ratings roster_ledger ([1, 5] @ [1, 5]) = [(1, 120), (5, 80)]"
    by (simp add: roster_ratings_def first_occurrences_def live_rating_def roster_ledger_def)
  have gt: "getTeams [(1, 120), (5, 80)] = Some ?T"
    by code_simp
  have "\<exists>calc. calculatePreGameElo ?T 30 = Inr calc
     \<and> dom (redAdjustments calc) = set (redTeam ?T)
     \<and> dom (blueAdjustments calc) = set (blueTeam ?T)"
    by (rule calculatePreGameElo_dom) (simp_all add: ratings_of_def)
  then obtain calc where calc: "calculatePreGameElo ?T 30 = Inr calc"
    "dom (redAdjustments calc) = {1}" "dom (blueAdjustments calc) = {5}"
    by auto
  have "replace roster_scenario ''Qw7eRt'' (Some 2) (Some 5) (\<lambda>m. True) True
     = (Done, \<lparr>matches = [''Qw7eRt'' \<mapsto>
                  roster_match\<lparr>matchRedTeam := [1, 5], matchBlueTeam := [1, 5],
                       teamsShared := True, preGameEloCalc := calc\<rparr>],
               guildStats = roster_ledger\<rparr>)"
    using rr
    by (simp add: replace_def get_is_won_def Let_def roster_scenario_def roster_match_def
        gt calc(1))
  with calc(2,3) show ?thesis by blast
qed

section \<open>Properties of the selection of the players and of starting a match\<close>

lemma wait_key_le_total: "wait_key_le a b \<or> wait_key_le b a"
  by (auto simp: wait_key_le_def split: option.splits)

lemma wait_key_le_trans: "wait_key_le a b \<Longrightarrow> wait_key_le b c \<Longrightarrow> wait_key_le a c"
  by (auto simp: wait_key_le_def split: option.splits)

lemma set_insort_wait: "set (insort_wait vd x ys) = insert x (set ys)"
  by (induction ys) auto

lemma length_insort_wait: "length (insort_wait vd x ys) = Suc (length ys)"
  by (induction ys) auto

lemma distinct_insort_wait: "distinct (insort_wait vd x ys) = (x \<notin> set ys \<and> distinct ys)"
  by (induction ys) (auto simp: set_insort_wait)

lemma sorted_insort_wait:
  "sorted_wrt (\<lambda>a b. wait_key_le (vd a) (vd b)) ys \<Longrightarrow>
   sorted_wrt (\<lambda>a b. wait_key_le (vd a) (vd b)) (insort_wait vd x ys)"
proof (induction ys)
  case Nil
  then show ?case by simp
next
  case (Cons y ys)
  show ?case
  proof (cases "wait_key_le (vd x) (vd y)")
    case True
    then have "\<forall>z \<in> set ys. wait_key_le (vd x) (vd z)"
      using Cons.prems wait_key_le_trans by auto
    with True Cons.prems show ?thesis by simp
  next
    case False
    then have "wait_key_le (vd y) (vd x)" using wait_key_le_total by blast
    with False Cons show ?thesis by (auto simp: set_insort_wait)
  qed
qed

lemma sort_by_wait_props:
  "set (sort_by_wait vd ms) = set ms"
  "length (sort_by_wait vd ms) = length ms"
  "distinct (sort_by_wait vd ms) = distinct ms"
  "sorted_wrt (\<lambda>a b. wait_key_le (vd a) (vd b)) (sort_by_wait vd ms)"
  unfolding sort_by_wait_def
  by (induction ms)
    (auto simp: set_insort_wait length_insort_wait distinct_insort_wait sorted_insort_wait)

lemma sorted_wrt_remove1:
  "sorted_wrt P xs \<Longrightarrow> sorted_wrt P (remove1 x xs)"
  by (induction xs) (auto dest: notin_set_remove1)

lemma remove_bots_none: "remove_bots is_bot ms = None \<longleftrightarrow> (\<forall>m \<in> set ms. \<not> is_bot m)"
  by (induction ms) auto

lemma remove_bots_some: "remove_bots is_bot ms = Some e \<Longrightarrow> e = TypeError"
  by (induction ms) (auto split: if_splits)

text \<open>
  Without a bot in the queue the selection is as the specification describes it: the
  host first, then the members who entered the queue earliest, in ascending order of
  their entry time, a member without a recorded time counting as the last to enter.
\<close>

lemma select_players_without_bots:
  assumes nb: "\<forall>m \<in> set queueMembers. \<not> is_bot m"
    and enough: "matchType * 2 \<le> length queueMembers"
    and host: "user \<in> set queueMembers"
    and dist: "distinct queueMembers" and pos: "0 < matchType"
  shows "\<exists>sel. select_players is_bot vd queueMembers user matchType = Inr sel
     \<and> length sel = matchType * 2 \<and> hd sel = user \<and> distinct sel
     \<and> set sel \<subseteq> set queueMembers
     \<and> sorted_wrt (\<lambda>a b. wait_key_le (vd a) (vd b)) (tl sel)
     \<and> (\<forall>q s. q \<in> set queueMembers - set sel \<and> s \<in> set (tl sel) \<longrightarrow>
           wait_key_le (vd s) (vd q))"
proof -
  let ?le = "\<lambda>a b. wait_key_le (vd a) (vd b)"
  let ?rest = "remove1 user (sort_by_wait vd queueMembers)"
  let ?n = "matchType * 2 - 1"
  let ?sel = "take (matchType * 2) (user # ?rest)"
  have sel: "?sel = user # take ?n ?rest"
    using pos by (cases "matchType * 2") simp_all
  have run: "select_players is_bot vd queueMembers user matchType = Inr ?sel"
    using nb enough host by (simp add: select_players_def remove_bots_none [THEN iffD2])
  have srt: "sorted_wrt ?le ?rest"
    by (rule sorted_wrt_remove1) (rule sort_by_wait_props)
  have drest: "distinct ?rest" using dist by (simp add: sort_by_wait_props)
  have set_rest: "set ?rest = set queueMembers - {user}"
    using dist by (simp add: sort_by_wait_props)
  have len_rest: "length ?rest = length queueMembers - 1"
    using host by (simp add: length_remove1 sort_by_wait_props)
  have c2: "length ?sel = matchType * 2"
    using enough len_rest pos unfolding sel by simp
  have c3: "hd ?sel = user" unfolding sel by simp
  have sub: "set (take ?n ?rest) \<subseteq> set ?rest" by (rule set_take_subset)
  have c4: "distinct ?sel"
    unfolding sel using drest sub set_rest by (auto simp: distinct_take)
  have c5: "set ?sel \<subseteq> set queueMembers"
    unfolding sel using sub set_rest host by auto
  have split: "sorted_wrt ?le (take ?n ?rest)
      \<and> (\<forall>a \<in> set (take ?n ?rest). \<forall>b \<in> set (drop ?n ?rest). wait_key_le (vd a) (vd b))"
    using srt sorted_wrt_append [of ?le "take ?n ?rest" "drop ?n ?rest"] by simp
  have c6: "sorted_wrt ?le (tl ?sel)"
    unfolding sel using split by simp
  have c7: "\<forall>q s. q \<in> set queueMembers - set ?sel \<and> s \<in> set (tl ?sel) \<longrightarrow>
           wait_key_le (vd s) (vd q)"
  proof (intro allI impI)
    fix q s assume qs: "q \<in> set queueMembers - set ?sel \<and> s \<in> set (tl ?sel)"
    then have "q \<in> set ?rest" "q \<notin> set (take ?n ?rest)"
      unfolding sel using set_rest by auto
    then have "q \<in> set (drop ?n ?rest)"
      by (metis Un_iff append_take_drop_id set_append)
    moreover have "s \<in> set (take ?n ?rest)" using qs unfolding sel by simp
    ultimately show "wait_key_le (vd s) (vd q)"
      using split by blast
  qed
  show ?thesis
    by (rule exI [of _ ?sel], intro conjI) (rule run c2 c3 c4 c5 c6 c7)+
qed

text \<open>
  Claim C9 says that whenever the host is in the queue and enough members who are not
  bots are present, the players are selected with the host first and no bot among them.
  With a bot in the queue \<^verbatim>\<open>startMatch\<close> selects nobody: the loop that is meant to
  remove the bots calls \<^verbatim>\<open>queueMembers.pop(member)\<close>, which raises \<^verbatim>\<open>TypeError\<close>. Here the
  host 1, the bot 9 and member 2 are in the queue and a 1v1 match is asked for.
\<close>

theorem startMatch_bot_in_queue:
  "select_players (\<lambda>m. m = 9) [1 \<mapsto> 10, 9 \<mapsto> 20, 2 \<mapsto> 30] [1, 9, 2] 1 1 = Inl (Raised TypeError)
   \<and> startMatch st True True True (\<lambda>m. m = 9) [1 \<mapsto> 10, 9 \<mapsto> 20, 2 \<mapsto> 30] [1, 9, 2] 1 1
        matchId = (Raised TypeError, st)
   \<and> select_players (\<lambda>m. m = 9) [1 \<mapsto> 10, 9 \<mapsto> 20, 2 \<mapsto> 30] [1, 2] 1 1 = Inr [1, 2]"
  by (simp add: startMatch_def select_players_def sort_by_wait_def wait_key_le_def)

lemma getTeams_candidate:
  "\<exists>team1. getTeams eloData = Some (candidate eloData (map fst eloData) team1)
     \<and> set team1 \<subseteq> set (map fst eloData)"
proof -
  let ?cs = "combinations (map fst eloData) (length eloData div 2)"
  have "?cs \<noteq> []" by (rule combinations_nonempty) simp
  from getTeams_first_min [OF this] obtain i where
    fm: "first_min eloData (map fst eloData) ?cs i"
    and res: "getTeams eloData = Some (candidate eloData (map fst eloData) (?cs ! i))"
    by blast
  have "?cs ! i \<in> set ?cs" using fm by (simp add: first_min_def)
  from combinations_props [OF this] res show ?thesis by blast
qed

lemma select_players_not_done:
  "select_players is_bot vd queueSnapshot user matchType \<noteq> Inl Done"
  by (auto simp: select_players_def split: option.splits)

text \<open>
  A match as \<^verbatim>\<open>startMatch\<close> registers it is running, and its prediction has entries for
  exactly the members of the red roster on the red side and of the blue roster on the
  blue side.
\<close>

lemma startMatch_prediction_sides:
  assumes "startMatch st setup_ok canHost channels_ok is_bot vd queueSnapshot user matchType
             matchId = (Done, st')"
  shows "\<exists>m. matches st' matchId = Some m \<and> who_won m = None
     \<and> dom (redAdjustments (preGameEloCalc m)) = set (matchRedTeam m)
     \<and> dom (blueAdjustments (preGameEloCalc m)) = set (matchBlueTeam m)"
proof -
  from assms obtain queueMembers teams calc where
    sel: "select_players is_bot vd queueSnapshot user matchType = Inr queueMembers"
    and gt: "getTeams (roster_ratings (guildStats st) queueMembers) = Some teams"
    and cp: "calculatePreGameElo teams 30 = Inr calc"
    and st': "st' = \<lparr>matches = (matches st)(matchId \<mapsto>
                           \<lparr>preGameEloCalc = calc,
                            matchRedTeam = filter (\<lambda>m. m \<in> set (redTeam teams)) queueMembers,
                            matchBlueTeam = filter (\<lambda>m. m \<in> set (blueTeam teams)) queueMembers,
                            teamsShared = False,
                            who_won = None,
                            host = user\<rparr>),
                         guildStats = updateElo (guildStats st) user [(Hosted, 1)] True\<rparr>"
    using select_players_not_done [of is_bot vd queueSnapshot user matchType]
    by (auto simp: startMatch_def split: if_splits sum.splits option.splits)
  let ?d = "roster_ratings (guildStats st) queueMembers"
  have keys: "set (map fst ?d) = set queueMembers"
    by (simp add: roster_ratings_def first_occurrences_def comp_def)
  from getTeams_candidate [of ?d] gt obtain team1 where
    t: "teams = candidate ?d (map fst ?d) team1" and sub: "set team1 \<subseteq> set (map fst ?d)"
    by auto
  have kr: "map fst (eloRedTeam teams) = redTeam teams"
    and kb: "map fst (eloBlueTeam teams) = blueTeam teams"
    by (simp_all add: t candidate_def restrict_dict_def comp_def)
  note dom = calculatePreGameElo_returned(1,2) [OF cp]
  have "set (redTeam teams) \<subseteq> set queueMembers" "set (blueTeam teams) \<subseteq> set queueMembers"
    using sub keys by (auto simp: t candidate_def complement_team_props)
  then have "set (filter (\<lambda>m. m \<in> set (redTeam teams)) queueMembers) = set (redTeam teams)"
    "set (filter (\<lambda>m. m \<in> set (blueTeam teams)) queueMembers) = set (blueTeam teams)"
    by auto
  with dom show ?thesis unfolding st' by simp
qed

lemma select_players_distinct:
  assumes "select_players is_bot vd queueSnapshot user matchType = Inr sel"
    and "distinct queueSnapshot"
  shows "distinct sel"
proof -
  let ?rest = "remove1 user (sort_by_wait vd queueSnapshot)"
  from assms(1) have sel: "sel = take (matchType * 2) (user # ?rest)"
    by (auto simp: select_players_def split: option.splits if_splits)
  have "distinct (user # ?rest)"
    using assms(2) by (simp add: sort_by_wait_props)
  then show ?thesis unfolding sel by (rule distinct_take)
qed

text \<open>
  If no member is twice in the snapshot of the queue, no member is twice in the rosters
  of the match that \<^verbatim>\<open>startMatch\<close> registers.
\<close>

lemma startMatch_rosters_distinct:
  assumes "startMatch st setup_ok canHost channels_ok is_bot vd queueSnapshot user matchType
             matchId = (Done, st')"
    and "distinct queueSnapshot"
  shows "\<exists>m. matches st' matchId = Some m \<and> distinct (matchRedTeam m @ matchBlueTeam m)"
proof -
  from assms(1) obtain queueMembers teams calc where
    sel: "select_players is_bot vd queueSnapshot user matchType = Inr queueMembers"
    and gt: "getTeams (roster_ratings (guildStats st) queueMembers) = Some teams"
    and st': "st' = \<lparr>matches = (matches st)(matchId \<mapsto>
                           \<lparr>preGameEloCalc = calc,
                            matchRedTeam = filter (\<lambda>m. m \<in> set (redTeam teams)) queueMembers,
                            matchBlueTeam = filter (\<lambda>m. m \<in> set (blueTeam teams)) queueMembers,
                            teamsShared = False,
                            who_won = None,
                            host = user\<rparr>),
                         guildStats = updateElo (guildStats st) user [(Hosted, 1)] True\<rparr>"
    using select_players_not_done [of is_bot vd queueSnapshot user matchType]
    by (auto simp: startMatch_def split: if_splits sum.splits option.splits)
  let ?d = "roster_ratings (guildStats st) queueMembers"
  from getTeams_candidate [of ?d] gt obtain team1 where
    t: "teams = candidate ?d (map fst ?d) team1"
    by auto
  have disj: "set (redTeam teams) \<inter> set (blueTeam teams) = {}"
    by (auto simp: t candidate_def complement_team_props)
  have dq: "distinct queueMembers"
    by (rule select_players_distinct [OF sel assms(2)])
  have "distinct (filter (\<lambda>m. m \<in> set (redTeam teams)) queueMembers
                @ filter (\<lambda>m. m \<in> set (blueTeam teams)) queueMembers)"
    using dq disj by auto
  then show ?thesis unfolding st' by simp
qed

section \<open>Resolving a match once\<close>

text \<open>
  \<^verbatim>\<open>endMatch\<close> is its guard followed by the part after the await.
\<close>

lemma endMatch_split:
  "endMatch st matchId winner
     = (if endMatch_guard st matchId then endMatch_after_defer st matchId winner
        else (Rejected AlreadyEndedOrCancelled, st))"
  by (simp add: endMatch_def endMatch_guard_def endMatch_after_defer_def
      split: option.splits)

lemma roster_ledger_complete: "ledger_complete roster_ledger"
  by (auto simp: ledger_complete_def roster_ledger_def split: if_splits)

text \<open>
  Claim C2 asks that one resolution settles every participant and that a second call is
  refused. After member 4 of the second match has been replaced by member 5, the match
  is running with the rosters 1, 2 and 3, 5, and its prediction holds the members 1, 3
  under red and 2, 5 under blue. \<^verbatim>\<open>endMatch\<close> with red as the winner stores the winner,
  settles member 1 with the stored \<open>won\<close> value, one game played and one win, and raises
  \<^verbatim>\<open>KeyError\<close> at member 2. The members 2, 3 and 5 keep their ratings and their count of
  0 games, and every further \<^verbatim>\<open>endMatch\<close> on the match is refused, so they are never
  settled.
\<close>

theorem endMatch_partial_settlement:
  "fst (replace roster_scenario ''Qw7eRt'' (Some 4) (Some 5) (\<lambda>m. True) True) = Done
   \<and> map_option who_won (matches replaced_scenario ''Qw7eRt'') = Some None
   \<and> map_option matchRedTeam (matches replaced_scenario ''Qw7eRt'') = Some [1, 2]
   \<and> map_option matchBlueTeam (matches replaced_scenario ''Qw7eRt'') = Some [3, 5]
   \<and> fst (endMatch replaced_scenario ''Qw7eRt'' 0) = Raised KeyError
   \<and> map_option who_won (matches half_resolved_scenario ''Qw7eRt'') = Some (Some 0)
   \<and> (\<exists>a. map_option (\<lambda>m. redAdjustments (preGameEloCalc m) 1)
               (matches replaced_scenario ''Qw7eRt'') = Some (Some a)
          \<and> stat (guildStats half_resolved_scenario) 1 Elo = 120 + won a)
   \<and> stat (guildStats half_resolved_scenario) 1 Played = 1
   \<and> stat (guildStats half_resolved_scenario) 1 Wins = 1
   \<and> stat (guildStats half_resolved_scenario) 2 Elo = 150
   \<and> stat (guildStats half_resolved_scenario) 2 Played = 0
   \<and> stat (guildStats half_resolved_scenario) 3 Elo = 100
   \<and> stat (guildStats half_resolved_scenario) 3 Played = 0
   \<and> stat (guildStats half_resolved_scenario) 5 Elo = 80
   \<and> stat (guildStats half_resolved_scenario) 5 Played = 0
   \<and> endMatch half_resolved_scenario ''Qw7eRt'' 0
       = (Rejected AlreadyEndedOrCancelled, half_resolved_scenario)
   \<and> endMatch half_resolved_scenario ''Qw7eRt'' 1
       = (Rejected AlreadyEndedOrCancelled, half_resolved_scenario)"
proof -
  have h: "who_won roster_match = None" "matchRedTeam roster_match = [1, 2]"
    "matchBlueTeam roster_match = [3, 4]" "teamsShared roster_match = False"
    by (simp_all add: roster_match_def)
  from replace_blue_member_run [OF h] obtain calc where
    run: "replace roster_scenario ''Qw7eRt'' (Some 4) (Some 5) (\<lambda>m. True) True
     = (Done, \<lparr>matches = [''Qw7eRt'' \<mapsto>
                  roster_match\<lparr>matchRedTeam := [1, 2], matchBlueTeam := [3, 5],
                       teamsShared := False, preGameEloCalc := calc\<rparr>],
               guildStats = roster_ledger\<rparr>)"
    and dr: "dom (redAdjustments calc) = {1, 3}"
    unfolding roster_scenario_def by blast
  define m1 where
    "m1 = roster_match\<lparr>matchRedTeam := [1, 2], matchBlueTeam := [3, 5],
                       teamsShared := False, preGameEloCalc := calc\<rparr>"
  have rs: "replaced_scenario = \<lparr>matches = [''Qw7eRt'' \<mapsto> m1], guildStats = roster_ledger\<rparr>"
    unfolding replaced_scenario_def run m1_def by simp
  from dr obtain a where a: "redAdjustments calc 1 = Some a" by auto
  have none: "redAdjustments calc 2 = None"
  proof (rule ccontr)
    assume "redAdjustments calc 2 \<noteq> None"
    then have "2 \<in> dom (redAdjustments calc)" by (simp add: domIff)
    with dr show False by simp
  qed
  define gs1 where
    "gs1 = updateElo roster_ledger 1 [(Elo, won a), (Played, 1), (Wins, 1)] True"
  have m1: "who_won m1 = None" "matchRedTeam m1 = [1, 2]" "matchBlueTeam m1 = [3, 5]"
    "redAdjustments (preGameEloCalc m1) 1 = Some a"
    "redAdjustments (preGameEloCalc m1) 2 = None"
    using h a none by (simp_all add: m1_def)
  have em: "endMatch replaced_scenario ''Qw7eRt'' 0
      = (Raised KeyError,
         \<lparr>matches = [''Qw7eRt'' \<mapsto> m1\<lparr>who_won := Some 0\<rparr>], guildStats = gs1\<rparr>)"
    using m1 by (simp add: rs endMatch_def Let_def gs1_def)
  have hs: "half_resolved_scenario
      = \<lparr>matches = [''Qw7eRt'' \<mapsto> m1\<lparr>who_won := Some 0\<rparr>], guildStats = gs1\<rparr>"
    unfolding half_resolved_scenario_def em by simp
  note u = updateElo_settle [OF roster_ledger_complete, of 1 "won a" 1 1]
  have before: "stat roster_ledger 1 Elo = 120" "stat roster_ledger 1 Played = 0"
    "stat roster_ledger 1 Wins = 0" "stat roster_ledger 2 Elo = 150"
    "stat roster_ledger 2 Played = 0" "stat roster_ledger 3 Elo = 100"
    "stat roster_ledger 3 Played = 0" "stat roster_ledger 5 Elo = 80"
    "stat roster_ledger 5 Played = 0"
    by (simp_all add: roster_ledger_def stat_def)
  have other: "stat gs1 p k = stat roster_ledger p k" if "p \<noteq> 1" for p k
    using that by (simp add: stat_def gs1_def updateElo_other)
  have c1: "fst (replace roster_scenario ''Qw7eRt'' (Some 4) (Some 5) (\<lambda>m. True) True) = Done"
    unfolding run by simp
  have c2: "map_option who_won (matches replaced_scenario ''Qw7eRt'') = Some None"
    and c3: "map_option matchRedTeam (matches replaced_scenario ''Qw7eRt'') = Some [1, 2]"
    and c4: "map_option matchBlueTeam (matches replaced_scenario ''Qw7eRt'') = Some [3, 5]"
    using m1 by (simp_all add: rs)
  have c5: "fst (endMatch replaced_scenario ''Qw7eRt'' 0) = Raised KeyError"
    unfolding em by simp
  have c6: "map_option who_won (matches half_resolved_scenario ''Qw7eRt'') = Some (Some 0)"
    by (simp add: hs)
  have "map_option (\<lambda>m. redAdjustments (preGameEloCalc m) 1)
               (matches replaced_scenario ''Qw7eRt'') = Some (Some a)
          \<and> stat (guildStats half_resolved_scenario) 1 Elo = 120 + won a"
    using m1(4) u(1) before(1) by (simp add: rs hs gs1_def)
  then have c7: "\<exists>a. map_option (\<lambda>m. redAdjustments (preGameEloCalc m) 1)
               (matches replaced_scenario ''Qw7eRt'') = Some (Some a)
          \<and> stat (guildStats half_resolved_scenario) 1 Elo = 120 + won a"
    by (rule exI)
  have c8: "stat (guildStats half_resolved_scenario) 1 Played = 1"
    and c9: "stat (guildStats half_resolved_scenario) 1 Wins = 1"
    using u(2,3) before(2,3) by (simp_all add: hs gs1_def)
  have c10: "stat (guildStats half_resolved_scenario) 2 Elo = 150"
    and c11: "stat (guildStats half_resolved_scenario) 2 Played = 0"
    and c12: "stat (guildStats half_resolved_scenario) 3 Elo = 100"
    and c13: "stat (guildStats half_resolved_scenario) 3 Played = 0"
    and c14: "stat (guildStats half_resolved_scenario) 5 Elo = 80"
    and c15: "stat (guildStats half_resolved_scenario) 5 Played = 0"
    using before(4-9) by (simp_all add: hs other)
  have c16: "endMatch half_resolved_scenario ''Qw7eRt'' 0
       = (Rejected AlreadyEndedOrCancelled, half_resolved_scenario)"
    and c17: "endMatch half_resolved_scenario ''Qw7eRt'' 1
       = (Rejected AlreadyEndedOrCancelled, half_resolved_scenario)"
    by (simp_all add: hs endMatch_def)
  show ?thesis
    by (intro conjI) (rule c1 c2 c3 c4 c5 c6 c7 c8 c9 c10 c11 c12 c13 c14 c15 c16 c17)+
qed

theorem endMatch_partial_settlement_witness:
  "fst (endMatch replaced_scenario ''Qw7eRt'' 0) = Raised KeyError
   \<and> stat (guildStats half_resolved_scenario) 1 Played = 1
   \<and> stat (guildStats half_resolved_scenario) 2 Played = 0
   \<and> endMatch half_resolved_scenario ''Qw7eRt'' 0
       = (Rejected AlreadyEndedOrCancelled, half_resolved_scenario)"
  using endMatch_partial_settlement by blast

text \<open>
  Two confirmations of the first match that overlap: both handlers pass the guard before
  either stores the winner, since each awaits after its guard. Both then settle every
  participant, and member 1 ends with the stored change applied twice, two games played
  and two wins for one match.
\<close>

lemma endMatch_overlap:
  "endMatch_guard scenario ''aB3xYz''
   \<and> (\<exists>st1 st2. endMatch_after_defer scenario ''aB3xYz'' 0 = (Done, st1)
         \<and> endMatch_after_defer st1 ''aB3xYz'' 0 = (Done, st2)
         \<and> stat (guildStats st1) 1 Elo = 134
         \<and> stat (guildStats st2) 1 Elo = 148
         \<and> stat (guildStats st2) 1 Played = 2
         \<and> stat (guildStats st2) 1 Wins = 2)"
proof -
  have g: "endMatch_guard scenario ''aB3xYz''"
    by (simp add: endMatch_guard_def scenario_def scenario_match_def)
  have h1: "matches scenario ''aB3xYz'' = Some scenario_match"
    by (simp add: scenario_def)
  have h2: "who_won scenario_match = None"
    and h3: "distinct (matchRedTeam scenario_match @ matchBlueTeam scenario_match)"
    and h4: "set (matchRedTeam scenario_match)
               \<subseteq> dom (redAdjustments (preGameEloCalc scenario_match))"
    and h5: "set (matchBlueTeam scenario_match)
               \<subseteq> dom (blueAdjustments (preGameEloCalc scenario_match))"
    by (simp_all add: scenario_match_def)
  from endMatch_result [OF h1 h2 h3 h4 h5 scenario_ledger_complete, of 0] obtain st1 where
    run1: "endMatch scenario ''aB3xYz'' 0 = (Done, st1)"
    and m1: "matches st1 ''aB3xYz'' = Some (scenario_match\<lparr>who_won := Some 0\<rparr>)"
    and red1: "\<forall>p a. p \<in> set (matchRedTeam scenario_match)
              \<and> redAdjustments (preGameEloCalc scenario_match) p = Some a \<longrightarrow>
         stat (guildStats st1) p Elo
           = stat (guildStats scenario) p Elo + (if (0::int) = 0 then won a else loss a)
         \<and> stat (guildStats st1) p Played = stat (guildStats scenario) p Played + 1
         \<and> stat (guildStats st1) p Wins
           = stat (guildStats scenario) p Wins + (if (0::int) = 0 then 1 else 0)"
    and lc1: "ledger_complete (guildStats st1)"
    by (elim exE conjE)
  define st0 where
    "st0 = st1\<lparr>matches := (matches st1)(''aB3xYz'' \<mapsto> scenario_match)\<rparr>"
  have k1: "matches st0 ''aB3xYz'' = Some scenario_match" by (simp add: st0_def)
  have lc0: "ledger_complete (guildStats st0)" using lc1 by (simp add: st0_def)
  from endMatch_result [OF k1 h2 h3 h4 h5 lc0, of 0] obtain st2 where
    run2: "endMatch st0 ''aB3xYz'' 0 = (Done, st2)"
    and red2: "\<forall>p a. p \<in> set (matchRedTeam scenario_match)
              \<and> redAdjustments (preGameEloCalc scenario_match) p = Some a \<longrightarrow>
         stat (guildStats st2) p Elo
           = stat (guildStats st0) p Elo + (if (0::int) = 0 then won a else loss a)
         \<and> stat (guildStats st2) p Played = stat (guildStats st0) p Played + 1
         \<and> stat (guildStats st2) p Wins
           = stat (guildStats st0) p Wins + (if (0::int) = 0 then 1 else 0)"
    by (elim exE conjE)
  have a1: "endMatch_after_defer scenario ''aB3xYz'' 0 = (Done, st1)"
    using run1 g by (simp add: endMatch_split)
  have g0: "endMatch_guard st0 ''aB3xYz''"
    using k1 h2 by (simp add: endMatch_guard_def)
  have same: "endMatch_after_defer st1 ''aB3xYz'' 0 = endMatch_after_defer st0 ''aB3xYz'' 0"
    using m1
    by (auto simp: endMatch_after_defer_def st0_def Let_def split: prod.splits option.splits)
  have a2: "endMatch_after_defer st1 ''aB3xYz'' 0 = (Done, st2)"
    using run2 g0 same by (simp add: endMatch_split)
  have r1: "1 \<in> set (matchRedTeam scenario_match)
      \<and> redAdjustments (preGameEloCalc scenario_match) 1 = Some \<lparr>won = 14, loss = - 16\<rparr>"
    by (simp add: scenario_match_def)
  have before: "stat (guildStats scenario) 1 Elo = 120" "stat (guildStats scenario) 1 Played = 0"
    "stat (guildStats scenario) 1 Wins = 0"
    by (simp_all add: scenario_def stat_def)
  from red1 [rule_format, OF r1] before
  have s1: "stat (guildStats st1) 1 Elo = 134" "stat (guildStats st1) 1 Played = 1"
    "stat (guildStats st1) 1 Wins = 1"
    by simp_all
  have "guildStats st0 = guildStats st1" by (simp add: st0_def)
  with red2 [rule_format, OF r1] s1
  have s2: "stat (guildStats st2) 1 Elo = 148" "stat (guildStats st2) 1 Played = 2"
    "stat (guildStats st2) 1 Wins = 2"
    by simp_all
  have "endMatch_after_defer scenario ''aB3xYz'' 0 = (Done, st1)
         \<and> endMatch_after_defer st1 ''aB3xYz'' 0 = (Done, st2)
         \<and> stat (guildStats st1) 1 Elo = 134
         \<and> stat (guildStats st2) 1 Elo = 148
         \<and> stat (guildStats st2) 1 Played = 2
         \<and> stat (guildStats st2) 1 Wins = 2"
    by (intro conjI) (rule a1 a2 s1 s2)+
  then have "\<exists>st1 st2. endMatch_after_defer scenario ''aB3xYz'' 0 = (Done, st1)
         \<and> endMatch_after_defer st1 ''aB3xYz'' 0 = (Done, st2)
         \<and> stat (guildStats st1) 1 Elo = 134
         \<and> stat (guildStats st2) 1 Elo = 148
         \<and> stat (guildStats st2) 1 Played = 2
         \<and> stat (guildStats st2) 1 Wins = 2"
    by blast
  with g show ?thesis by (rule conjI)
qed

end
